theory Spec2Isabelle
  imports Complex_Main
begin

section \<open>Errors raised by the DPC module\<close>

text \<open>
  Every exception the module \<open>skxray/dpc.py\<close> can raise is a constructor. The two
  \<open>ValueError\<close>s the module raises itself are kept apart from the ones raised by the
  numerical library underneath, so that a statement can say which one was raised.
\<close>

datatype error =
    WeightRangeError      \<comment> \<open>ValueError('w should be within the range of [0, 1]!')\<close>
  | SquarePixelError      \<comment> \<open>ValueError('In DPC, detector pixels are squares!')\<close>
  | IndexError            \<comment> \<open>an integer index outside an array axis\<close>
  | UnravelError          \<comment> \<open>ValueError of unravel_index: flat index outside the grid\<close>
  | BroadcastError        \<comment> \<open>ValueError: operands or assignment could not be broadcast\<close>
  | FFTSizeError          \<comment> \<open>ValueError: invalid number of FFT data points\<close>
  | NegativeDimError      \<comment> \<open>ValueError: negative dimensions are not allowed\<close>
  | ZeroDivisionError     \<comment> \<open>division of Python scalars by zero\<close>
  | OptimizerError        \<comment> \<open>anything the external optimizer raises\<close>

section \<open>Two-dimensional arrays\<close>

text \<open>
  A 2-D array is its list of rows together with its number of columns; the number of
  columns is stored because an array may have no rows and still have columns
  (the shape \<open>(0, n)\<close> of an empty crop).
\<close>

record 'a array2 =
  rows_of :: "'a list list"
  ncols :: nat

definition nrows :: "'a array2 \<Rightarrow> nat" where
  "nrows a = length (rows_of a)"

definition shape :: "'a array2 \<Rightarrow> nat \<times> nat" where
  "shape a = (nrows a, ncols a)"

definition rect :: "'a array2 \<Rightarrow> bool" where
  "rect a = list_all (\<lambda>r. length r = ncols a) (rows_of a)"

definition total :: "'a::comm_monoid_add array2 \<Rightarrow> 'a" where
  "total a = sum_list (concat (rows_of a))"

text \<open>An integer index on an axis of length \<open>n\<close>: negative indices count from the end.\<close>

definition np_index :: "int \<Rightarrow> nat \<Rightarrow> error + nat" where
  "np_index i n =
     (if 0 \<le> i \<and> i < int n then Inr (nat i)
      else if - int n \<le> i \<and> i < 0 then Inr (nat (i + int n))
      else Inl IndexError)"

text \<open>\<open>a[row, column] = v\<close>\<close>

definition setitem :: "'a array2 \<Rightarrow> int \<times> int \<Rightarrow> 'a \<Rightarrow> error + 'a array2" where
  "setitem a rc v =
     (case np_index (fst rc) (nrows a) of
        Inl e \<Rightarrow> Inl e
      | Inr i \<Rightarrow>
          (case np_index (snd rc) (ncols a) of
             Inl e \<Rightarrow> Inl e
           | Inr j \<Rightarrow> Inr (a\<lparr>rows_of := (rows_of a)[i := (rows_of a ! i)[j := v]]\<rparr>)))"

text \<open>
  One bound of a slice \<open>start:stop\<close> on an axis of length \<open>n\<close>: a negative bound
  counts from the end, and the result is clipped to \<open>0..n\<close>.
\<close>

definition slice_index :: "int \<Rightarrow> nat \<Rightarrow> nat" where
  "slice_index k n = (if k < 0 then nat (max (k + int n) 0) else min (nat k) n)"

definition slice_len :: "int \<Rightarrow> int \<Rightarrow> nat \<Rightarrow> nat" where
  "slice_len start stop n = slice_index stop n - slice_index start n"

definition slice :: "int \<Rightarrow> int \<Rightarrow> 'a list \<Rightarrow> 'a list" where
  "slice start stop xs =
     take (slice_len start stop (length xs)) (drop (slice_index start (length xs)) xs)"

text \<open>\<open>a[r0:r1, c0:c1]\<close>\<close>

definition getslice2 :: "'a array2 \<Rightarrow> int \<times> int \<Rightarrow> int \<times> int \<Rightarrow> 'a array2" where
  "getslice2 a rs cs =
     \<lparr>rows_of = map (slice (fst cs) (snd cs)) (slice (fst rs) (snd rs) (rows_of a)),
      ncols = slice_len (fst cs) (snd cs) (ncols a)\<rparr>"

text \<open>\<open>np.sum(a, axis=0)\<close> and \<open>np.sum(a, axis=1)\<close>\<close>

definition sum_axis0 :: "'a::comm_monoid_add array2 \<Rightarrow> 'a list" where
  "sum_axis0 a = map (\<lambda>j. sum_list (map (\<lambda>r. r ! j) (rows_of a))) [0..<ncols a]"

definition sum_axis1 :: "'a::comm_monoid_add array2 \<Rightarrow> 'a list" where
  "sum_axis1 a = map sum_list (rows_of a)"

section \<open>image_reduction\<close>

text \<open>The loop \<open>for row, column in bad_pixels: im[row, column] = 0\<close>.\<close>

fun zero_bad_pixels :: "'a::zero array2 \<Rightarrow> (int \<times> int) list \<Rightarrow> error + 'a array2" where
  "zero_bad_pixels im [] = Inr im"
| "zero_bad_pixels im (p # ps) =
     (case setitem im p 0 of
        Inl e \<Rightarrow> Inl e
      | Inr im' \<Rightarrow> zero_bad_pixels im' ps)"

definition mask_bad_pixels ::
  "'a::zero array2 \<Rightarrow> (int \<times> int) list option \<Rightarrow> error + 'a array2" where
  "mask_bad_pixels im bad_pixels =
     (case bad_pixels of None \<Rightarrow> Inr im | Some ps \<Rightarrow> zero_bad_pixels im ps)"

text \<open>\<open>if roi is not None: r, c, row, col = roi; im = im[r : r + row, c : c + col]\<close>\<close>

definition crop_roi :: "'a array2 \<Rightarrow> (int \<times> int \<times> int \<times> int) option \<Rightarrow> 'a array2" where
  "crop_roi im roi =
     (case roi of
        None \<Rightarrow> im
      | Some (r, c, row, col) \<Rightarrow> getslice2 im (r, r + row) (c, c + col))"

definition image_reduction ::
  "'a::comm_monoid_add array2 \<Rightarrow> (int \<times> int \<times> int \<times> int) option \<Rightarrow>
   (int \<times> int) list option \<Rightarrow> error + ('a list \<times> 'a list)" where
  "image_reduction im roi bad_pixels =
     (case mask_bad_pixels im bad_pixels of
        Inl e \<Rightarrow> Inl e
      | Inr im1 \<Rightarrow>
          (let im2 = crop_roi im1 roi;
               xline = sum_axis0 im2;
               yline = sum_axis1 im2
           in Inr (xline, yline)))"

subsection \<open>The same function on a store of buffers\<close>

text \<open>
  The source starts with \<open>im = im.copy()\<close> and then writes into the copy. To say that
  the caller's buffer is left alone, the arrays live in a store: a list of buffers, an
  array reference being an index into it. \<open>copy\<close> allocates a new buffer at the end of
  the store; an item assignment overwrites the buffer it is applied to; a slice is a
  view, which only reads.
\<close>

type_synonym 'a store = "'a array2 list"

definition np_copy :: "'a store \<Rightarrow> nat \<Rightarrow> nat \<times> 'a store" where
  "np_copy h a = (length h, h @ [h ! a])"

definition setitem_st :: "'a store \<Rightarrow> nat \<Rightarrow> int \<times> int \<Rightarrow> 'a \<Rightarrow> (error + unit) \<times> 'a store" where
  "setitem_st h p rc v =
     (case setitem (h ! p) rc v of
        Inl e \<Rightarrow> (Inl e, h)
      | Inr a' \<Rightarrow> (Inr (), h[p := a']))"

fun zero_bad_pixels_st ::
  "'a::zero store \<Rightarrow> nat \<Rightarrow> (int \<times> int) list \<Rightarrow> (error + unit) \<times> 'a store" where
  "zero_bad_pixels_st h p [] = (Inr (), h)"
| "zero_bad_pixels_st h p (rc # ps) =
     (case setitem_st h p rc 0 of
        (Inl e, h') \<Rightarrow> (Inl e, h')
      | (Inr u, h') \<Rightarrow> zero_bad_pixels_st h' p ps)"

definition image_reduction_st ::
  "'a::comm_monoid_add store \<Rightarrow> nat \<Rightarrow> (int \<times> int \<times> int \<times> int) option \<Rightarrow>
   (int \<times> int) list option \<Rightarrow> (error + ('a list \<times> 'a list)) \<times> 'a store" where
  "image_reduction_st h im roi bad_pixels =
     (let (p, h1) = np_copy h im;
          (r, h2) = (case bad_pixels of
                       None \<Rightarrow> (Inr (), h1)
                     | Some ps \<Rightarrow> zero_bad_pixels_st h1 p ps)
      in case r of
           Inl e \<Rightarrow> (Inl e, h2)
         | Inr u \<Rightarrow>
             (let view = crop_roi (h2 ! p) roi;
                  xline = sum_axis0 view;
                  yline = sum_axis1 view
              in (Inr (xline, yline), h2)))"

section \<open>The residual model\<close>

text \<open>
  \<open>np.linspace(start, stop, num)\<close> with the end point included: \<open>num\<close> samples,
  the step being \<open>(stop - start) / (num - 1)\<close>, the last sample set to \<open>stop\<close>.
\<close>

definition linspace :: "real \<Rightarrow> real \<Rightarrow> nat \<Rightarrow> real list" where
  "linspace start stop num =
     (if num = 0 then []
      else if num = 1 then [start]
      else map (\<lambda>k. real k * ((stop - start) / real (num - 1)) + start) [0..<num - 1] @ [stop])"

text \<open>
  \<open>beta = 1j * (np.linspace(-(length-1)//2, (length-1)//2, length))\<close>. The operator
  \<open>//\<close> is floor division on integers and the unary minus binds tighter than it.
\<close>

definition beta :: "nat \<Rightarrow> complex list" where
  "beta len =
     map (\<lambda>x. \<i> * complex_of_real x)
       (linspace (real_of_int ((- (int len - 1)) div 2))
                 (real_of_int ((int len - 1) div 2)) len)"

text \<open>
  An elementwise operation on two 1-D arrays: equal lengths pair up, an array of length
  one is stretched, anything else cannot be broadcast.
\<close>

definition broadcast2 :: "('a \<Rightarrow> 'b \<Rightarrow> 'c) \<Rightarrow> 'a list \<Rightarrow> 'b list \<Rightarrow> error + 'c list" where
  "broadcast2 f xs ys =
     (if length xs = length ys then Inr (map2 f xs ys)
      else if length xs = 1 then Inr (map (f (hd xs)) ys)
      else if length ys = 1 then Inr (map (\<lambda>x. f x (hd ys)) xs)
      else Inl BroadcastError)"

text \<open>
  The closure \<open>_rss\<close>, with the captured \<open>beta\<close> as its first argument:
  \<open>diff = arg2 - arg1 * v[0] * np.exp(v[1] * beta)\<close>,
  \<open>return np.sum((diff * np.conj(diff)).real)\<close>.
\<close>

definition rss :: "complex list \<Rightarrow> real \<times> real \<Rightarrow> complex list \<Rightarrow> complex list \<Rightarrow> error + real" where
  "rss bt v arg1 arg2 =
     (case broadcast2 (*) (map (\<lambda>a. a * complex_of_real (fst v)) arg1)
                          (map (\<lambda>b. exp (complex_of_real (snd v) * b)) bt) of
        Inl e \<Rightarrow> Inl e
      | Inr model \<Rightarrow>
          (case broadcast2 (-) arg2 model of
             Inl e \<Rightarrow> Inl e
           | Inr diff \<Rightarrow> Inr (sum_list (map (\<lambda>d. Re (d * cnj d)) diff))))"

definition rss_factory :: "nat \<Rightarrow> real \<times> real \<Rightarrow> complex list \<Rightarrow> complex list \<Rightarrow> error + real" where
  "rss_factory len = rss (beta len)"

text \<open>
  \<open>dpc_fit\<close> hands the residual to \<open>scipy.optimize.minimize\<close> and returns the
  optimizer's final point. The optimizer is outside this module: it is a parameter,
  called with the objective, the start point, the two extra arguments, the solver name,
  the tolerance and the iteration bound. It gives its final point, or \<open>None\<close> when
  it raises (an unknown solver name, an objective that raises); whatever it raises
  passes through \<open>dpc_fit\<close> as \<open>OptimizerError\<close>.
\<close>

type_synonym residual = "real \<times> real \<Rightarrow> complex list \<Rightarrow> complex list \<Rightarrow> error + real"

type_synonym optimizer =
  "residual \<Rightarrow> real \<times> real \<Rightarrow> complex list \<times> complex list \<Rightarrow> string \<Rightarrow> real \<Rightarrow> nat
   \<Rightarrow> (real \<times> real) option"

definition dpc_fit ::
  "optimizer \<Rightarrow> residual \<Rightarrow> complex list \<Rightarrow> complex list \<Rightarrow> real \<times> real \<Rightarrow> string \<Rightarrow>
   real \<Rightarrow> nat \<Rightarrow> error + real \<times> real" where
  "dpc_fit minimize f arg1 arg2 start_point solver tol max_iters =
     (case minimize f start_point (arg1, arg2) solver tol max_iters of
        None \<Rightarrow> Inl OptimizerError
      | Some x \<Rightarrow> Inr x)"

section \<open>Discrete Fourier transforms\<close>

text \<open>
  The transforms of \<open>numpy.fft\<close>, written as the sums they compute over the reals.
  All of them refuse an empty axis.
\<close>

definition dft_sum :: "real \<Rightarrow> complex list \<Rightarrow> nat \<Rightarrow> complex" where
  "dft_sum sg xs k =
     (\<Sum>m\<leftarrow>[0..<length xs]. xs ! m * cis (sg * 2 * pi * real m * real k / real (length xs)))"

definition ifft :: "complex list \<Rightarrow> error + complex list" where
  "ifft xs =
     (if length xs < 1 then Inl FFTSizeError
      else Inr (map (\<lambda>k. dft_sum 1 xs k / of_nat (length xs)) [0..<length xs]))"

definition fftshift :: "'a list \<Rightarrow> 'a list" where
  "fftshift xs = (let p2 = (length xs + 1) div 2 in drop p2 xs @ take p2 xs)"

definition ifftshift :: "'a list \<Rightarrow> 'a list" where
  "ifftshift xs = (let p2 = length xs - (length xs + 1) div 2 in drop p2 xs @ take p2 xs)"

definition tabulate2 :: "nat \<Rightarrow> nat \<Rightarrow> (nat \<Rightarrow> nat \<Rightarrow> 'a) \<Rightarrow> 'a array2" where
  "tabulate2 r c f = \<lparr>rows_of = map (\<lambda>i. map (f i) [0..<c]) [0..<r], ncols = c\<rparr>"

definition cell :: "'a array2 \<Rightarrow> nat \<Rightarrow> nat \<Rightarrow> 'a" where
  "cell a i j = rows_of a ! i ! j"

definition map_array :: "('a \<Rightarrow> 'b) \<Rightarrow> 'a array2 \<Rightarrow> 'b array2" where
  "map_array f a = \<lparr>rows_of = map (map f) (rows_of a), ncols = ncols a\<rparr>"

definition dft2_sum :: "real \<Rightarrow> complex array2 \<Rightarrow> nat \<Rightarrow> nat \<Rightarrow> complex" where
  "dft2_sum sg a u v =
     (\<Sum>m\<leftarrow>[0..<nrows a]. \<Sum>n\<leftarrow>[0..<ncols a].
        cell a m n * cis (sg * 2 * pi * (real u * real m / real (nrows a)
                                          + real v * real n / real (ncols a))))"

definition fft2 :: "complex array2 \<Rightarrow> error + complex array2" where
  "fft2 a =
     (if nrows a < 1 \<or> ncols a < 1 then Inl FFTSizeError
      else Inr (tabulate2 (nrows a) (ncols a) (dft2_sum (- 1) a)))"

definition ifft2 :: "complex array2 \<Rightarrow> error + complex array2" where
  "ifft2 a =
     (if nrows a < 1 \<or> ncols a < 1 then Inl FFTSizeError
      else Inr (tabulate2 (nrows a) (ncols a)
                  (\<lambda>u v. dft2_sum 1 a u v / of_nat (nrows a * ncols a))))"

definition fftshift2 :: "'a array2 \<Rightarrow> 'a array2" where
  "fftshift2 a = \<lparr>rows_of = fftshift (map fftshift (rows_of a)), ncols = ncols a\<rparr>"

definition ifftshift2 :: "'a array2 \<Rightarrow> 'a array2" where
  "ifftshift2 a = \<lparr>rows_of = ifftshift (map ifftshift (rows_of a)), ncols = ncols a\<rparr>"

section \<open>recon\<close>

text \<open>
  Array arithmetic is carried out over the reals. A value that is not finite (the
  \<open>inf\<close> or \<open>nan\<close> that a NumPy array division by zero produces, with a warning and
  without raising) is \<open>None\<close>, and every operation with such an operand gives
  \<open>None\<close> again.
\<close>

definition nf2 :: "('a \<Rightarrow> 'b \<Rightarrow> 'c) \<Rightarrow> 'a option \<Rightarrow> 'b option \<Rightarrow> 'c option" where
  "nf2 f x y =
     (case x of
        None \<Rightarrow> None
      | Some a \<Rightarrow> (case y of None \<Rightarrow> None | Some b \<Rightarrow> Some (f a b)))"

definition np_divide :: "'a::field option \<Rightarrow> 'a option \<Rightarrow> 'a option" where
  "np_divide x y =
     (case x of
        None \<Rightarrow> None
      | Some a \<Rightarrow>
          (case y of
             None \<Rightarrow> None
           | Some b \<Rightarrow> if b = 0 then None else Some (a / b)))"

definition np_zeros :: "int \<Rightarrow> int \<Rightarrow> error + real array2" where
  "np_zeros r c =
     (if r < 0 \<or> c < 0 then Inl NegativeDimError
      else Inr (tabulate2 (nat r) (nat c) (\<lambda>i j. 0)))"

text \<open>
  \<open>a[r0:r1, c0:c1] = src\<close>: the source array must have the shape of the selected
  block, or length one along an axis, which is then repeated.
\<close>

definition setslice2 :: "'a array2 \<Rightarrow> int \<times> int \<Rightarrow> int \<times> int \<Rightarrow> 'a array2 \<Rightarrow> error + 'a array2" where
  "setslice2 a rs cs src =
     (let r0 = slice_index (fst rs) (nrows a);
          rn = slice_len (fst rs) (snd rs) (nrows a);
          c0 = slice_index (fst cs) (ncols a);
          cn = slice_len (fst cs) (snd cs) (ncols a)
      in if (nrows src = rn \<or> nrows src = 1) \<and> (ncols src = cn \<or> ncols src = 1)
         then Inr (tabulate2 (nrows a) (ncols a)
                (\<lambda>i j. if r0 \<le> i \<and> i < r0 + rn \<and> c0 \<le> j \<and> j < c0 + cn
                       then cell src (if nrows src = 1 then 0 else i - r0)
                                     (if ncols src = 1 then 0 else j - c0)
                       else cell a i j))
         else Inl BroadcastError)"

text \<open>
  \<open>roi_slice = (slice(padding * rows, (padding + 1) * rows),
                 slice(padding * cols, (padding + 1) * cols))\<close>
\<close>

definition roi_slice :: "int \<Rightarrow> nat \<Rightarrow> nat \<Rightarrow> (int \<times> int) \<times> (int \<times> int)" where
  "roi_slice padding rows cols =
     ((padding * int rows, (padding + 1) * int rows),
      (padding * int cols, (padding + 1) * int cols))"

text \<open>The first stage of \<open>recon\<close>: the two zero grids and the two block assignments.\<close>

definition pad_grids :: "real array2 \<Rightarrow> real array2 \<Rightarrow> int \<Rightarrow> error + real array2 \<times> real array2" where
  "pad_grids gx gy padding =
     (let pad = 2 * padding + 1;
          rows = nrows gx;
          cols = ncols gx;
          pad_row = int rows * pad;
          pad_col = int cols * pad
      in case np_zeros pad_row pad_col of
           Inl e \<Rightarrow> Inl e
         | Inr gx0 \<Rightarrow>
        (case np_zeros pad_row pad_col of
           Inl e \<Rightarrow> Inl e
         | Inr gy0 \<Rightarrow>
        (let sl = roi_slice padding rows cols
         in case setslice2 gx0 (fst sl) (snd sl) gx of
              Inl e \<Rightarrow> Inl e
            | Inr gx_padding \<Rightarrow>
           (case setslice2 gy0 (fst sl) (snd sl) gy of
              Inl e \<Rightarrow> Inl e
            | Inr gy_padding \<Rightarrow> Inr (gx_padding, gy_padding)))))"

text \<open>
  \<open>mid = n // 2 + 1\<close>,
  \<open>2 * np.pi * np.arange(1 - mid, n - mid + 1) / (n * d)\<close>
\<close>

definition freq_axis :: "int \<Rightarrow> real \<Rightarrow> real option list" where
  "freq_axis n d =
     (let mid = n div 2 + 1
      in map (\<lambda>k. np_divide (Some (2 * pi * real_of_int k)) (Some (real_of_int n * d)))
             [1 - mid .. n - mid])"

definition meshgrid :: "'a list \<Rightarrow> 'a list \<Rightarrow> 'a array2 \<times> 'a array2" where
  "meshgrid xs ys =
     (tabulate2 (length ys) (length xs) (\<lambda>i j. xs ! j),
      tabulate2 (length ys) (length xs) (\<lambda>i j. ys ! i))"

text \<open>One cell of \<open>div_v = kappax ** 2 * (1 - w) + kappay ** 2 * w\<close>.\<close>

definition divisor :: "real option \<Rightarrow> real option \<Rightarrow> real \<Rightarrow> real option" where
  "divisor kx ky w =
     nf2 (+) (nf2 (*) (nf2 (*) kx kx) (Some (1 - w))) (nf2 (*) (nf2 (*) ky ky) (Some w))"

text \<open>One cell of \<open>-1j * (kappax * tx * (1 - w) + kappay * ty * w)\<close>.\<close>

definition numerator :: "real option \<Rightarrow> real option \<Rightarrow> complex \<Rightarrow> complex \<Rightarrow> real \<Rightarrow> complex option" where
  "numerator kx ky tx ty w =
     nf2 (*) (Some (- \<i>))
       (nf2 (+)
          (nf2 (*) (nf2 (*) (map_option complex_of_real kx) (Some tx)) (Some (complex_of_real (1 - w))))
          (nf2 (*) (nf2 (*) (map_option complex_of_real ky) (Some ty)) (Some (complex_of_real w))))"

text \<open>
  \<open>kappax, kappay = np.meshgrid(ax, ay)\<close>, \<open>div_v\<close>, the quotient \<open>c\<close> and
  \<open>np.where(div_v == 0, 0, c)\<close>.
\<close>

definition combined_spectrum ::
  "real option list \<Rightarrow> real option list \<Rightarrow> complex array2 \<Rightarrow> complex array2 \<Rightarrow> real \<Rightarrow>
   complex option array2" where
  "combined_spectrum ax ay tx ty w =
     (let (kappax, kappay) = meshgrid ax ay;
          div_v = tabulate2 (length ay) (length ax)
                    (\<lambda>i j. divisor (cell kappax i j) (cell kappay i j) w);
          c = tabulate2 (length ay) (length ax)
                (\<lambda>i j. np_divide
                         (numerator (cell kappax i j) (cell kappay i j) (cell tx i j) (cell ty i j) w)
                         (map_option complex_of_real (cell div_v i j)))
      in tabulate2 (length ay) (length ax)
           (\<lambda>i j. if cell div_v i j = Some 0 then Some 0 else cell c i j))"

definition all_finite :: "'a option array2 \<Rightarrow> bool" where
  "all_finite a = list_all (list_all (\<lambda>x. x \<noteq> None)) (rows_of a)"

text \<open>The inverse transform of a grid that may hold values that are not finite.\<close>

definition ifft2_nf :: "complex option array2 \<Rightarrow> error + complex option array2" where
  "ifft2_nf a =
     (if nrows a < 1 \<or> ncols a < 1 then Inl FFTSizeError
      else if all_finite a then
        (case ifft2 (map_array the a) of
           Inl e \<Rightarrow> Inl e
         | Inr b \<Rightarrow> Inr (map_array Some b))
      else Inr (tabulate2 (nrows a) (ncols a) (\<lambda>i j. None)))"

text \<open>
  The middle of \<open>recon\<close>: the transforms of the padded grids, the frequency grids,
  the combined spectrum and its inverse transform \<open>np.fft.ifft2(c)\<close>.
\<close>

definition inverse_spectrum ::
  "real array2 \<Rightarrow> real array2 \<Rightarrow> int \<Rightarrow> int \<Rightarrow> real \<Rightarrow> real \<Rightarrow> real \<Rightarrow>
   error + complex option array2" where
  "inverse_spectrum gx_padding gy_padding pad_row pad_col dx dy w =
     (case fft2 (map_array complex_of_real gx_padding) of
        Inl e \<Rightarrow> Inl e
      | Inr fx \<Rightarrow>
     (case fft2 (map_array complex_of_real gy_padding) of
        Inl e \<Rightarrow> Inl e
      | Inr fy \<Rightarrow>
     (let tx = fftshift2 fx;
          ty = fftshift2 fy;
          ax = freq_axis pad_col dx;
          ay = freq_axis pad_row dy;
          c = ifftshift2 (combined_spectrum ax ay tx ty w)
      in ifft2_nf c)))"

definition recon ::
  "real array2 \<Rightarrow> real array2 \<Rightarrow> real \<Rightarrow> real \<Rightarrow> int \<Rightarrow> real \<Rightarrow> error + real option array2" where
  "recon gx gy dx dy padding w =
     (if w < 0 \<or> w > 1 then Inl WeightRangeError
      else
        (let pad = 2 * padding + 1;
             rows = nrows gx;
             cols = ncols gx;
             pad_row = int rows * pad;
             pad_col = int cols * pad;
             sl = roi_slice padding rows cols
         in case pad_grids gx gy padding of
              Inl e \<Rightarrow> Inl e
            | Inr (gx_padding, gy_padding) \<Rightarrow>
           (case inverse_spectrum gx_padding gy_padding pad_row pad_col dx dy w of
              Inl e \<Rightarrow> Inl e
            | Inr spatial \<Rightarrow>
                Inr (map_array (map_option Re) (getslice2 spatial (fst sl) (snd sl))))))"

section \<open>dpc_runner\<close>

text \<open>
  \<open>np.unravel_index(index, (rows, cols))\<close>: the row-major cell of a flat index, a
  \<open>ValueError\<close> for an index outside the grid.
\<close>

definition unravel_index :: "nat \<Rightarrow> nat \<times> nat \<Rightarrow> error + nat \<times> nat" where
  "unravel_index index dims =
     (if index < fst dims * snd dims then Inr (index div snd dims, index mod snd dims)
      else Inl UnravelError)"

text \<open>\<open>np.fft.fftshift(np.fft.ifft(line))\<close>\<close>

definition shifted_ifft :: "real list \<Rightarrow> error + complex list" where
  "shifted_ifft line =
     (case ifft (map complex_of_real line) of
        Inl e \<Rightarrow> Inl e
      | Inr f \<Rightarrow> Inr (fftshift f))"

text \<open>Division of two Python floats.\<close>

definition py_div :: "real \<Rightarrow> real \<Rightarrow> error + real" where
  "py_div x y = (if y = 0 then Inl ZeroDivisionError else Inr (x / y))"

text \<open>The four maps the scan loop fills in.\<close>

record grids =
  g_ax :: "real array2"
  g_ay :: "real array2"
  g_gx :: "real array2"
  g_gy :: "real array2"

text \<open>
  The body of the loop for one element \<open>im\<close> of the image sequence at position
  \<open>index\<close> of the enumeration.
\<close>

definition scan_position ::
  "optimizer \<Rightarrow> (int \<times> int \<times> int \<times> int) option \<Rightarrow> (int \<times> int) list option \<Rightarrow>
   real \<times> real \<Rightarrow> string \<Rightarrow> nat \<Rightarrow> nat \<Rightarrow> complex list \<Rightarrow> complex list \<Rightarrow>
   residual \<Rightarrow> residual \<Rightarrow> nat \<Rightarrow> real array2 \<Rightarrow> grids \<Rightarrow> error + grids" where
  "scan_position minimize roi bad_pixels start_point solver rows cols ref_fx ref_fy ffx ffy
     index im g =
     (case unravel_index index (rows, cols) of
        Inl e \<Rightarrow> Inl e
      | Inr (i, j) \<Rightarrow>
     (case image_reduction im roi bad_pixels of
        Inl e \<Rightarrow> Inl e
      | Inr (imx, imy) \<Rightarrow>
     (case shifted_ifft imx of
        Inl e \<Rightarrow> Inl e
      | Inr fx \<Rightarrow>
     (case shifted_ifft imy of
        Inl e \<Rightarrow> Inl e
      | Inr fy \<Rightarrow>
     (case dpc_fit minimize ffx ref_fx fx start_point solver (1 / 1000000) 2000 of
        Inl e \<Rightarrow> Inl e
      | Inr (ax1, gx1) \<Rightarrow>
     (case dpc_fit minimize ffy ref_fy fy start_point solver (1 / 1000000) 2000 of
        Inl e \<Rightarrow> Inl e
      | Inr (ay1, gy1) \<Rightarrow>
     (case setitem (g_gx g) (int i, int j) gx1 of
        Inl e \<Rightarrow> Inl e
      | Inr gx' \<Rightarrow>
     (case setitem (g_gy g) (int i, int j) gy1 of
        Inl e \<Rightarrow> Inl e
      | Inr gy' \<Rightarrow>
     (case setitem (g_ax g) (int i, int j) ax1 of
        Inl e \<Rightarrow> Inl e
      | Inr ax' \<Rightarrow>
     (case setitem (g_ay g) (int i, int j) ay1 of
        Inl e \<Rightarrow> Inl e
      | Inr ay' \<Rightarrow> Inr \<lparr>g_ax = ax', g_ay = ay', g_gx = gx', g_gy = gy'\<rparr>))))))))))"

text \<open>
  \<open>for index, im in enumerate(image_sequence)\<close>: the image sequence is a single-pass
  iterator, here the list of the elements it still has to give. Each round pulls one
  element; the loop ends when the iterator is exhausted or when the body raises. The
  result comes with what is left in the iterator.
\<close>

fun scan_loop ::
  "(nat \<Rightarrow> real array2 \<Rightarrow> grids \<Rightarrow> error + grids) \<Rightarrow> nat \<Rightarrow> real array2 list \<Rightarrow> grids \<Rightarrow>
   (error + grids) \<times> real array2 list" where
  "scan_loop body index [] g = (Inr g, [])"
| "scan_loop body index (im # rest) g =
     (case body index im g of
        Inl e \<Rightarrow> (Inl e, rest)
      | Inr g' \<Rightarrow> scan_loop body (index + 1) rest g')"

text \<open>What \<open>dpc_runner\<close> does after the loop: scaling, inversion, reconstruction.\<close>

definition finish_run ::
  "grids \<Rightarrow> nat \<Rightarrow> nat \<Rightarrow> real \<times> real \<Rightarrow> real \<Rightarrow> real \<Rightarrow> real \<Rightarrow> real \<Rightarrow> int \<Rightarrow> real \<Rightarrow>
   bool \<Rightarrow> bool \<Rightarrow> error + real option array2 \<times> real array2" where
  "finish_run g len_fx len_fy pixel_size focus_to_det dx dy energy padding w invert scale =
     (case (if scale then
              (if fst pixel_size \<noteq> snd pixel_size then Inl SquarePixelError
               else
                 (case py_div (124 / 100000) energy of
                    Inl e \<Rightarrow> Inl e
                  | Inr lambda \<Rightarrow>
                 (case py_div (real len_fx * fst pixel_size) (lambda * focus_to_det) of
                    Inl e \<Rightarrow> Inl e
                  | Inr sx \<Rightarrow>
                 (case py_div (real len_fy * fst pixel_size) (lambda * focus_to_det) of
                    Inl e \<Rightarrow> Inl e
                  | Inr sy \<Rightarrow>
                      Inr (map_array (\<lambda>x. x * sx) (g_gx g), map_array (\<lambda>y. y * sy) (g_gy g))))))
            else Inr (g_gx g, g_gy g)) of
        Inl e \<Rightarrow> Inl e
      | Inr (gx, gy) \<Rightarrow>
          (let gx = (if invert then map_array uminus gx else gx)
           in case recon gx gy dx dy padding w of
                Inl e \<Rightarrow> Inl e
              | Inr phi \<Rightarrow>
                  Inr (phi, tabulate2 (nrows (g_ax g)) (ncols (g_ax g))
                              (\<lambda>i j. (cell (g_ax g) i j + cell (g_ay g) i j) / 2))))"

text \<open>
  \<open>dpc_runner\<close> from the reduction of the reference image to the end of the loop.
  It gives the four maps and the lengths of the two reference spectra.
\<close>

definition scan_all ::
  "optimizer \<Rightarrow> real array2 \<Rightarrow> real array2 list \<Rightarrow> real \<times> real \<Rightarrow> nat \<Rightarrow> nat \<Rightarrow> string \<Rightarrow>
   (int \<times> int \<times> int \<times> int) option \<Rightarrow> (int \<times> int) list option \<Rightarrow>
   (error + grids \<times> nat \<times> nat) \<times> real array2 list" where
  "scan_all minimize ref image_sequence start_point rows cols solver roi bad_pixels =
     (let zero = tabulate2 rows cols (\<lambda>i j. 0);
          g0 = \<lparr>g_ax = zero, g_ay = zero, g_gx = zero, g_gy = zero\<rparr>
      in case image_reduction ref roi bad_pixels of
           Inl e \<Rightarrow> (Inl e, image_sequence)
         | Inr (refx, refy) \<Rightarrow>
        (case shifted_ifft refx of
           Inl e \<Rightarrow> (Inl e, image_sequence)
         | Inr ref_fx \<Rightarrow>
        (case shifted_ifft refy of
           Inl e \<Rightarrow> (Inl e, image_sequence)
         | Inr ref_fy \<Rightarrow>
        (let ffx = rss_factory (length ref_fx);
             ffy = rss_factory (length ref_fy)
         in case scan_loop
                   (scan_position minimize roi bad_pixels start_point solver rows cols
                      ref_fx ref_fy ffx ffy)
                   0 image_sequence g0 of
              (Inl e, rest) \<Rightarrow> (Inl e, rest)
            | (Inr g, rest) \<Rightarrow> (Inr (g, length ref_fx, length ref_fy), rest)))))"

definition dpc_runner ::
  "optimizer \<Rightarrow> real array2 \<Rightarrow> real array2 list \<Rightarrow> real \<times> real \<Rightarrow> real \<times> real \<Rightarrow> real \<Rightarrow>
   nat \<Rightarrow> nat \<Rightarrow> real \<Rightarrow> real \<Rightarrow> real \<Rightarrow> int \<Rightarrow> real \<Rightarrow> string \<Rightarrow>
   (int \<times> int \<times> int \<times> int) option \<Rightarrow> (int \<times> int) list option \<Rightarrow> bool \<Rightarrow> bool \<Rightarrow>
   (error + real option array2 \<times> real array2) \<times> real array2 list" where
  "dpc_runner minimize ref image_sequence start_point pixel_size focus_to_det rows cols dx dy
     energy padding w solver roi bad_pixels invert scale =
     (if w < 0 \<or> w > 1 then (Inl WeightRangeError, image_sequence)
      else
        (case scan_all minimize ref image_sequence start_point rows cols solver roi bad_pixels of
           (Inl e, rest) \<Rightarrow> (Inl e, rest)
         | (Inr (g, len_fx, len_fy), rest) \<Rightarrow>
             (finish_run g len_fx len_fy pixel_size focus_to_det dx dy energy padding w
                invert scale, rest)))"

text \<open>
  An optimizer that stops before its first step and returns the start point, as
  the external one does when it has nothing to improve. It stands for the external
  optimizer wherever a run is evaluated on concrete data.
\<close>

definition start_point_optimizer :: optimizer where
  "start_point_optimizer f x0 args solver tol max_iters = Some x0"

section \<open>Properties of image_reduction\<close>

subsection \<open>Shapes are preserved\<close>

lemma sum_columns_rows:
  fixes rs :: "'a::comm_monoid_add list list"
  shows "list_all (\<lambda>r. length r = n) rs \<Longrightarrow>
   sum_list (map (\<lambda>j. sum_list (map (\<lambda>r. r ! j) rs)) [0..<n]) = sum_list (map sum_list rs)"
proof (induction rs)
  case Nil
  then show ?case by simp
next
  case (Cons r rs)
  then have len: "length r = n" and rest: "list_all (\<lambda>r. length r = n) rs" by simp_all
  have "map (\<lambda>j. r ! j) [0..<n] = r" using len map_nth [of r] by simp
  then have "sum_list (map (\<lambda>j. r ! j) [0..<n]) = sum_list r" by simp
  with Cons.IH [OF rest] show ?case by (simp add: sum_list_addf)
qed

lemma sum_axis0_axis1: "rect a \<Longrightarrow> sum_list (sum_axis0 a) = sum_list (sum_axis1 a)"
  by (simp add: rect_def sum_axis0_def sum_axis1_def sum_columns_rows)

lemma sum_list_concat_rows:
  fixes rs :: "'a::comm_monoid_add list list"
  shows "sum_list (concat rs) = sum_list (map sum_list rs)"
  by (induction rs) simp_all

lemma sum_axis1_total: "sum_list (sum_axis1 a) = total a"
  by (simp add: sum_axis1_def total_def sum_list_concat_rows)

lemma np_index_bound: "np_index i n = Inr k \<Longrightarrow> k < n"
  by (auto simp: np_index_def split: if_splits)

lemma setitem_rect: "rect a \<Longrightarrow> setitem a rc v = Inr a' \<Longrightarrow> rect a'"
  by (auto simp: setitem_def rect_def list_all_length nth_list_update nrows_def
      split: sum.splits dest: np_index_bound)

lemma setitem_shape: "setitem a rc v = Inr a' \<Longrightarrow> nrows a' = nrows a \<and> ncols a' = ncols a"
  by (auto simp: setitem_def nrows_def split: sum.splits)

lemma zero_bad_pixels_rect: "rect im \<Longrightarrow> zero_bad_pixels im ps = Inr im' \<Longrightarrow> rect im'"
  by (induction ps arbitrary: im) (auto split: sum.splits dest: setitem_rect)

lemma zero_bad_pixels_shape:
  "zero_bad_pixels im ps = Inr im' \<Longrightarrow> nrows im' = nrows im \<and> ncols im' = ncols im"
  by (induction ps arbitrary: im) (auto split: sum.splits dest: setitem_shape)

lemma mask_bad_pixels_rect: "rect im \<Longrightarrow> mask_bad_pixels im bp = Inr im' \<Longrightarrow> rect im'"
  by (auto simp: mask_bad_pixels_def split: option.splits dest: zero_bad_pixels_rect)

lemma mask_bad_pixels_shape:
  "mask_bad_pixels im bp = Inr im' \<Longrightarrow> nrows im' = nrows im \<and> ncols im' = ncols im"
  by (auto simp: mask_bad_pixels_def split: option.splits dest: zero_bad_pixels_shape)

lemma length_slice: "length (slice start stop xs) = slice_len start stop (length xs)"
  by (auto simp: slice_def slice_len_def slice_index_def)

lemma set_slice: "set (slice start stop xs) \<subseteq> set xs"
  by (auto simp: slice_def dest: in_set_takeD in_set_dropD)

lemma getslice2_rect: "rect a \<Longrightarrow> rect (getslice2 a rs cs)"
  using set_slice by (fastforce simp: rect_def getslice2_def list_all_iff length_slice)

lemma crop_roi_rect: "rect a \<Longrightarrow> rect (crop_roi a roi)"
  by (auto simp: crop_roi_def getslice2_rect split: option.splits)

lemma slice_len_nonneg:
  "0 \<le> s \<Longrightarrow> 0 \<le> k \<Longrightarrow> int (slice_len s (s + k) n) = max 0 (min k (int n - s))"
  by (auto simp: slice_len_def slice_index_def min_def max_def)

lemma slice_nonneg:
  "0 \<le> s \<Longrightarrow> 0 \<le> k \<Longrightarrow> slice s (s + k) xs = take (nat k) (drop (nat s) xs)"
  by (auto simp: slice_def slice_len_def slice_index_def min_def nat_add_distrib)

subsection \<open>Evaluation on concrete arrays\<close>

lemmas image_eval =
  image_reduction_def mask_bad_pixels_def crop_roi_def getslice2_def slice_def slice_len_def
  slice_index_def sum_axis0_def sum_axis1_def setitem_def np_index_def nrows_def rect_def
  total_def Let_def

lemma upt_2: "[0..<2] = [0, Suc 0]"
  by (simp add: upt_rec)


subsection \<open>The two projections have the same sum\<close>

lemma np_index_total: "- int n \<le> i \<Longrightarrow> i < int n \<Longrightarrow> \<exists>k. np_index i n = Inr k"
  by (auto simp: np_index_def)

lemma setitem_total:
  assumes "- int (nrows a) \<le> fst rc" "fst rc < int (nrows a)"
    and "- int (ncols a) \<le> snd rc" "snd rc < int (ncols a)"
  shows "\<exists>a'. setitem a rc v = Inr a'"
proof -
  from np_index_total [OF assms(1,2)] obtain i where "np_index (fst rc) (nrows a) = Inr i" ..
  moreover from np_index_total [OF assms(3,4)] obtain j where "np_index (snd rc) (ncols a) = Inr j" ..
  ultimately show ?thesis by (simp add: setitem_def)
qed

lemma zero_bad_pixels_total:
  assumes "list_all (\<lambda>p. - int (nrows im) \<le> fst p \<and> fst p < int (nrows im) \<and>
                         - int (ncols im) \<le> snd p \<and> snd p < int (ncols im)) ps"
  shows "\<exists>im'. zero_bad_pixels im ps = Inr im'"
  using assms
proof (induction ps arbitrary: im)
  case Nil
  then show ?case by simp
next
  case (Cons p ps)
  then have "- int (nrows im) \<le> fst p" "fst p < int (nrows im)"
    "- int (ncols im) \<le> snd p" "snd p < int (ncols im)" by simp_all
  from setitem_total [OF this] obtain im1 where s: "setitem im p 0 = Inr im1" ..
  from setitem_shape [OF s] Cons.prems
  have "list_all (\<lambda>p. - int (nrows im1) \<le> fst p \<and> fst p < int (nrows im1) \<and>
                         - int (ncols im1) \<le> snd p \<and> snd p < int (ncols im1)) ps"
    by simp
  from Cons.IH [OF this] s show ?case by simp
qed


text \<open>
  C5: for a rectangular image, any region of interest and any list of bad pixels,
  \<open>image_reduction\<close> returns whenever the bad pixels are valid indices of the image,
  and whenever it returns, the sum of the row projection equals the sum of the column
  projection, and both equal the sum of all pixels of the image after the bad pixels
  have been zeroed and the region has been cropped. Pixel arithmetic is exact (any
  commutative monoid: integers, reals).
\<close>

theorem image_reduction_sums:
  assumes "rect im"
  shows "(list_all (\<lambda>p. - int (nrows im) \<le> fst p \<and> fst p < int (nrows im) \<and>
                          - int (ncols im) \<le> snd p \<and> snd p < int (ncols im))
            (case bad_pixels of None \<Rightarrow> [] | Some ps \<Rightarrow> ps) \<longrightarrow>
          (\<exists>xline yline. image_reduction im roi bad_pixels = Inr (xline, yline))) \<and>
         (\<forall>xline yline. image_reduction im roi bad_pixels = Inr (xline, yline) \<longrightarrow>
            sum_list xline = sum_list yline \<and>
            (\<exists>im1. mask_bad_pixels im bad_pixels = Inr im1 \<and>
                   sum_list yline = total (crop_roi im1 roi)))"
proof (intro conjI allI impI)
  assume "list_all (\<lambda>p. - int (nrows im) \<le> fst p \<and> fst p < int (nrows im) \<and>
                          - int (ncols im) \<le> snd p \<and> snd p < int (ncols im))
            (case bad_pixels of None \<Rightarrow> [] | Some ps \<Rightarrow> ps)"
  then have "\<exists>im1. mask_bad_pixels im bad_pixels = Inr im1"
    by (cases bad_pixels) (simp_all add: mask_bad_pixels_def zero_bad_pixels_total)
  then show "\<exists>xline yline. image_reduction im roi bad_pixels = Inr (xline, yline)"
    by (auto simp: image_reduction_def Let_def)
next
  fix xline yline
  assume ret: "image_reduction im roi bad_pixels = Inr (xline, yline)"
  then obtain im1 where m: "mask_bad_pixels im bad_pixels = Inr im1"
    and x: "xline = sum_axis0 (crop_roi im1 roi)" and y: "yline = sum_axis1 (crop_roi im1 roi)"
    by (auto simp: image_reduction_def Let_def split: sum.splits)
  have r: "rect (crop_roi im1 roi)"
    using assms m by (blast intro: crop_roi_rect mask_bad_pixels_rect)
  from r x y show "sum_list xline = sum_list yline" by (simp add: sum_axis0_axis1)
  from m y show "\<exists>im1. mask_bad_pixels im bad_pixels = Inr im1 \<and>
                   sum_list yline = total (crop_roi im1 roi)"
    by (auto simp: sum_axis1_total)
qed


theorem image_reduction_sums_witness:
  "rect \<lparr>rows_of = [[1, 2], [3, 4::int]], ncols = 2\<rparr> \<and>
   image_reduction \<lparr>rows_of = [[1, 2], [3, 4::int]], ncols = 2\<rparr> (Some (0, 0, 1, 2)) (Some [(0, 1)])
     = Inr ([1, 0], [1]) \<and>
   sum_list [1, 0::int] = sum_list [1::int] \<and>
   (\<exists>im1. mask_bad_pixels \<lparr>rows_of = [[1, 2], [3, 4::int]], ncols = 2\<rparr> (Some [(0, 1)]) = Inr im1 \<and>
          sum_list [1::int] = total (crop_roi im1 (Some (0, 0, 1, 2)))) \<and>
   (\<exists>xline yline.
      image_reduction \<lparr>rows_of = [[1, 2], [3, 4::int]], ncols = 2\<rparr> (Some (0, 0, 1, 2)) (Some [(-1, -2)])
        = Inr (xline, yline))"
proof -
  let ?im = "\<lparr>rows_of = [[1, 2], [3, 4::int]], ncols = 2\<rparr>"
  have r: "rect ?im" by (simp add: rect_def)
  have e: "image_reduction ?im (Some (0, 0, 1, 2)) (Some [(0, 1)]) = Inr ([1, 0], [1])"
    by (simp add: image_eval upt_2)
  from image_reduction_sums [OF r, of "Some [(0, 1)]" "Some (0, 0, 1, 2)"] e
  have "sum_list [1, 0::int] = sum_list [1::int] \<and>
        (\<exists>im1. mask_bad_pixels ?im (Some [(0, 1)]) = Inr im1 \<and>
               sum_list [1::int] = total (crop_roi im1 (Some (0, 0, 1, 2))))"
    by blast
  moreover have "list_all (\<lambda>p. - int (nrows ?im) \<le> fst p \<and> fst p < int (nrows ?im) \<and>
                             - int (ncols ?im) \<le> snd p \<and> snd p < int (ncols ?im))
                   (case Some [(-1, -2)] of None \<Rightarrow> [] | Some ps \<Rightarrow> ps)"
    by (simp add: nrows_def)
  with image_reduction_sums [OF r, of "Some [(-1, -2)]" "Some (0, 0, 1, 2)"]
  have "\<exists>xline yline. image_reduction ?im (Some (0, 0, 1, 2)) (Some [(-1, -2)]) = Inr (xline, yline)"
    by blast
  ultimately show ?thesis using r e by blast
qed


subsection \<open>A region of interest beyond the image is truncated\<close>

text \<open>
  C9, as stated, gives the row projection the length
  \<open>min(numCols, width - originCol)\<close>. On a \<open>1 \<times> 1\<close> image with the region
  \<open>(0, 2, 1, 1)\<close>, whose origin column lies beyond the image, the projection is empty
  while the formula gives \<open>-1\<close>.
\<close>

theorem roi_past_edge_counterexample:
  "image_reduction \<lparr>rows_of = [[7::int]], ncols = 1\<rparr> (Some (0, 2, 1, 1)) None = Inr ([], [0]) \<and>
   int (length ([] :: int list)) \<noteq> min 1 (int (ncols \<lparr>rows_of = [[7::int]], ncols = 1\<rparr>) - 2)"
  by (simp add: image_eval)


text \<open>
  C9, amended: for a region of interest with non-negative origin and non-negative
  extent, \<open>image_reduction\<close> raises nothing on account of the region, whether or not
  it reaches beyond the image: when the bad pixels (if any) are inside the image, it
  returns projections of lengths \<open>max(0, min(numCols, width - originCol))\<close> and
  \<open>max(0, min(numRows, height - originRow))\<close>, computed over the part of the region
  that lies inside the image.
\<close>

theorem image_reduction_roi_truncates:
  assumes nonneg: "0 \<le> r" "0 \<le> c" "0 \<le> row" "0 \<le> col"
    and r: "rect im"
    and m: "mask_bad_pixels im bad_pixels = Inr im1"
  shows "\<exists>xline yline.
           image_reduction im (Some (r, c, row, col)) bad_pixels = Inr (xline, yline) \<and>
           int (length xline) = max 0 (min col (int (ncols im) - c)) \<and>
           int (length yline) = max 0 (min row (int (nrows im) - r)) \<and>
           xline = map (\<lambda>j. sum_list (map (\<lambda>rw. rw ! (nat c + j))
                                   (take (nat row) (drop (nat r) (rows_of im1)))))
                       [0..<length xline] \<and>
           yline = map (\<lambda>rw. sum_list (take (nat col) (drop (nat c) rw)))
                       (take (nat row) (drop (nat r) (rows_of im1)))"
proof -
  let ?rs = "take (nat row) (drop (nat r) (rows_of im1))"
  let ?n = "slice_len c (c + col) (ncols im1)"
  let ?x = "sum_axis0 (crop_roi im1 (Some (r, c, row, col)))"
  let ?y = "sum_axis1 (crop_roi im1 (Some (r, c, row, col)))"
  have sh: "nrows im1 = nrows im" "ncols im1 = ncols im"
    using mask_bad_pixels_shape [OF m] by simp_all
  have r1: "rect im1" using r m by (rule mask_bad_pixels_rect)
  have rows: "rows_of (crop_roi im1 (Some (r, c, row, col))) = map (\<lambda>rw. take (nat col) (drop (nat c) rw)) ?rs"
    using nonneg by (simp add: crop_roi_def getslice2_def slice_nonneg)
  have cols: "ncols (crop_roi im1 (Some (r, c, row, col))) = ?n"
    by (simp add: crop_roi_def getslice2_def)
  have res: "image_reduction im (Some (r, c, row, col)) bad_pixels = Inr (?x, ?y)"
    by (simp add: image_reduction_def m Let_def)
  have lx: "length ?x = ?n" by (simp add: sum_axis0_def cols)
  have ly: "length ?y = slice_len r (r + row) (nrows im1)"
    using nonneg by (simp add: sum_axis1_def rows nrows_def slice_nonneg [symmetric] length_slice)
  have y: "?y = map (\<lambda>rw. sum_list (take (nat col) (drop (nat c) rw))) ?rs"
    by (simp add: sum_axis1_def rows comp_def)
  have len_rw: "\<And>rw. rw \<in> set ?rs \<Longrightarrow> length rw = ncols im1"
    using r1 by (auto simp: rect_def list_all_iff dest: in_set_takeD in_set_dropD)
  have nth: "\<And>rw j. rw \<in> set ?rs \<Longrightarrow> j < ?n \<Longrightarrow> take (nat col) (drop (nat c) rw) ! j = rw ! (nat c + j)"
  proof -
    fix rw j assume rw: "rw \<in> set ?rs" and j: "j < ?n"
    have "int ?n = max 0 (min col (int (ncols im1) - c))"
      using nonneg by (simp add: slice_len_nonneg)
    with j nonneg have "j < nat col" and "nat c + j < ncols im1" by (auto simp: min_def max_def split: if_splits)
    then show "take (nat col) (drop (nat c) rw) ! j = rw ! (nat c + j)"
      using len_rw [OF rw] by simp
  qed
  have x: "?x = map (\<lambda>j. sum_list (map (\<lambda>rw. rw ! (nat c + j)) ?rs)) [0..<length ?x]"
    unfolding lx
    by (simp add: sum_axis0_def rows cols comp_def nth cong: map_cong)
  have ilx: "int (length ?x) = max 0 (min col (int (ncols im) - c))"
    using nonneg sh lx by (simp add: slice_len_nonneg)
  have ily: "int (length ?y) = max 0 (min row (int (nrows im) - r))"
    using nonneg sh ly by (simp add: slice_len_nonneg)
  from res ilx ily x y show ?thesis by blast
qed

theorem image_reduction_roi_truncates_witness:
  "rect \<lparr>rows_of = [[1, 2], [3, 4::int]], ncols = 2\<rparr> \<and>
   mask_bad_pixels \<lparr>rows_of = [[1, 2], [3, 4::int]], ncols = 2\<rparr> None
     = Inr \<lparr>rows_of = [[1, 2], [3, 4::int]], ncols = 2\<rparr> \<and>
   (\<exists>xline yline.
      image_reduction \<lparr>rows_of = [[1, 2], [3, 4::int]], ncols = 2\<rparr> (Some (1, 1, 5, 5)) None
        = Inr (xline, yline) \<and>
      int (length xline) = 1 \<and> int (length yline) = 1)"
proof -
  have r: "rect \<lparr>rows_of = [[1, 2], [3, 4::int]], ncols = 2\<rparr>" by (simp add: rect_def)
  have m: "mask_bad_pixels \<lparr>rows_of = [[1, 2], [3, 4::int]], ncols = 2\<rparr> None
     = Inr \<lparr>rows_of = [[1, 2], [3, 4::int]], ncols = 2\<rparr>" by (simp add: mask_bad_pixels_def)
  have n: "(0::int) \<le> 1" "(0::int) \<le> 5" by simp_all
  from image_reduction_roi_truncates [OF n(1) n(1) n(2) n(2) r m]
  obtain xline yline where
    "image_reduction \<lparr>rows_of = [[1, 2], [3, 4::int]], ncols = 2\<rparr> (Some (1, 1, 5, 5)) None
        = Inr (xline, yline)"
    "int (length xline) = max 0 (min 5 (int (ncols \<lparr>rows_of = [[1, 2], [3, 4::int]], ncols = 2\<rparr>) - 1))"
    "int (length yline) = max 0 (min 5 (int (nrows \<lparr>rows_of = [[1, 2], [3, 4::int]], ncols = 2\<rparr>) - 1))"
    by blast
  then have "image_reduction \<lparr>rows_of = [[1, 2], [3, 4::int]], ncols = 2\<rparr> (Some (1, 1, 5, 5)) None
        = Inr (xline, yline) \<and> int (length xline) = 1 \<and> int (length yline) = 1"
    by (simp add: nrows_def)
  with r m show ?thesis by blast
qed


subsection \<open>The caller's buffer is left alone\<close>

lemma setitem_st_frame:
  "p < length h \<Longrightarrow> setitem_st h p rc v = (r, h') \<Longrightarrow>
   length h' = length h \<and> (\<forall>q. q \<noteq> p \<longrightarrow> h' ! q = h ! q) \<and>
   (case setitem (h ! p) rc v of Inl e \<Rightarrow> r = Inl e \<and> h' = h | Inr a \<Rightarrow> r = Inr () \<and> h' ! p = a)"
  by (auto simp: setitem_st_def split: sum.splits)

lemma zero_bad_pixels_st_frame:
  "p < length h \<Longrightarrow> zero_bad_pixels_st h p ps = (r, h') \<Longrightarrow>
   length h' = length h \<and> (\<forall>q. q \<noteq> p \<longrightarrow> h' ! q = h ! q) \<and>
   (case zero_bad_pixels (h ! p) ps of Inl e \<Rightarrow> r = Inl e | Inr a \<Rightarrow> r = Inr () \<and> h' ! p = a)"
proof (induction ps arbitrary: h)
  case Nil
  then show ?case by simp
next
  case (Cons rc ps)
  obtain r1 h1 where s: "setitem_st h p rc 0 = (r1, h1)" by (cases "setitem_st h p rc 0")
  note f = setitem_st_frame [OF Cons.prems(1) s]
  show ?case
  proof (cases "setitem (h ! p) rc 0")
    case (Inl e)
    with f Cons.prems(2) s show ?thesis by auto
  next
    case (Inr a)
    with f have r1: "r1 = Inr ()" and h1: "h1 ! p = a" "length h1 = length h" 
      and o: "\<forall>q. q \<noteq> p \<longrightarrow> h1 ! q = h ! q" by auto
    from Cons.prems(2) s r1 have z: "zero_bad_pixels_st h1 p ps = (r, h')" by simp
    from Cons.prems(1) h1 have "p < length h1" by simp
    from Cons.IH [OF this z] h1 o Inr show ?thesis by simp
  qed
qed

lemma image_reduction_st_frame:
  assumes "im < length h" and "image_reduction_st h im roi bad_pixels = (res, h')"
  shows "take (length h) h' = h \<and> res = image_reduction (h ! im) roi bad_pixels"
proof (cases bad_pixels)
  case None
  with assms show ?thesis
    by (auto simp: image_reduction_st_def image_reduction_def mask_bad_pixels_def np_copy_def Let_def
        nth_append)
next
  case (Some ps)
  let ?h1 = "h @ [h ! im]"
  obtain r h2 where z: "zero_bad_pixels_st ?h1 (length h) ps = (r, h2)"
    by (cases "zero_bad_pixels_st ?h1 (length h) ps")
  have "length h < length ?h1" by simp
  note f = zero_bad_pixels_st_frame [OF this z]
  then have len: "length h2 = Suc (length h)" and o: "\<forall>q. q \<noteq> length h \<longrightarrow> h2 ! q = ?h1 ! q" by auto
  have t: "take (length h) h2 = h"
    by (rule nth_equalityI) (use len o in \<open>auto simp: nth_append\<close>)
  show ?thesis
  proof (cases "zero_bad_pixels (h ! im) ps")
    case (Inl e)
    with f have "r = Inl e" by simp
    with assms z Some Inl t show ?thesis
      by (auto simp: image_reduction_st_def image_reduction_def mask_bad_pixels_def np_copy_def Let_def)
  next
    case (Inr a)
    with f have "r = Inr ()" "h2 ! length h = a" by simp_all
    with assms z Some Inr t show ?thesis
      by (auto simp: image_reduction_st_def image_reduction_def mask_bad_pixels_def np_copy_def Let_def)
  qed
qed

text \<open>
  C7: \<open>image_reduction\<close> run on a store leaves every buffer the caller had as it
  was, the image in particular: only the private copy, allocated behind them, is
  written. Its result is a function of the image's contents, the region and the bad
  pixels alone, and a second call with the same arguments returns the same result.
\<close>

theorem image_reduction_pure:
  assumes "im < length h" and "image_reduction_st h im roi bad_pixels = (res, h')"
  shows "take (length h) h' = h \<and> h' ! im = h ! im \<and>
         res = image_reduction (h ! im) roi bad_pixels \<and>
         fst (image_reduction_st h' im roi bad_pixels) = res"
proof -
  note f = image_reduction_st_frame [OF assms]
  then have t: "take (length h) h' = h" by simp
  have "take (length h) h' ! im = h' ! im" using assms(1) by simp
  with t have same: "h' ! im = h ! im" by simp
  from t have "length h \<le> length h'" by (metis length_take min.cobounded1 min.commute)
  with assms(1) have lt: "im < length h'" by simp
  obtain res2 h2 where s: "image_reduction_st h' im roi bad_pixels = (res2, h2)"
    by (cases "image_reduction_st h' im roi bad_pixels")
  from image_reduction_st_frame [OF lt s] same f have "res2 = res" by simp
  with s f same show ?thesis by simp
qed

theorem image_reduction_pure_witness:
  "(0::nat) < length [\<lparr>rows_of = [[1, 2], [3, 4::int]], ncols = 2\<rparr>] \<and>
   image_reduction_st [\<lparr>rows_of = [[1, 2], [3, 4::int]], ncols = 2\<rparr>] 0
       (Some (0, 0, 1, 2)) (Some [(0, 1)])
     = (Inr ([1, 0], [1]),
        [\<lparr>rows_of = [[1, 2], [3, 4]], ncols = 2\<rparr>, \<lparr>rows_of = [[1, 0], [3, 4]], ncols = 2\<rparr>]) \<and>
   [\<lparr>rows_of = [[1, 2], [3, 4::int]], ncols = 2\<rparr>, \<lparr>rows_of = [[1, 0], [3, 4]], ncols = 2\<rparr>] ! 0
     = [\<lparr>rows_of = [[1, 2], [3, 4::int]], ncols = 2\<rparr>] ! 0 \<and>
   fst (image_reduction_st
          [\<lparr>rows_of = [[1, 2], [3, 4::int]], ncols = 2\<rparr>, \<lparr>rows_of = [[1, 0], [3, 4]], ncols = 2\<rparr>] 0
          (Some (0, 0, 1, 2)) (Some [(0, 1)]))
     = Inr ([1, 0], [1])"
proof -
  have l: "(0::nat) < length [\<lparr>rows_of = [[1, 2], [3, 4::int]], ncols = 2\<rparr>]" by simp
  have e: "image_reduction_st [\<lparr>rows_of = [[1, 2], [3, 4::int]], ncols = 2\<rparr>] 0
       (Some (0, 0, 1, 2)) (Some [(0, 1)])
     = (Inr ([1, 0], [1]),
        [\<lparr>rows_of = [[1, 2], [3, 4]], ncols = 2\<rparr>, \<lparr>rows_of = [[1, 0], [3, 4]], ncols = 2\<rparr>])"
    by (simp add: image_reduction_st_def np_copy_def setitem_st_def image_eval upt_2)
  from image_reduction_pure [OF l e] l e show ?thesis by simp
qed

section \<open>Properties of the residual model\<close>

subsection \<open>The frequency support\<close>

lemma floor_half_span: "0 \<le> m \<Longrightarrow> m div 2 - (- m) div 2 = (m::int)"
  by presburger

lemma floor_half_start: "(- (int n - 1)) div 2 = - int (n div 2)" if "0 < n"
  using that by presburger

lemma linspace_unit_step:
  assumes "stop - start = real (n - 1)" and "k < n"
  shows "linspace start stop n ! k = start + real k"
proof -
  consider "n = 1" | "1 < n" "k < n - 1" | "1 < n" "k = n - 1" using assms(2) by linarith
  then show ?thesis
  proof cases
    case 1
    with assms show ?thesis by (simp add: linspace_def)
  next
    case 2
    then show ?thesis using assms(1) by (simp add: linspace_def nth_append)
  next
    case 3
    then show ?thesis using assms(1) by (simp add: linspace_def nth_append)
  qed
qed

lemma length_linspace: "length (linspace start stop n) = n"
  by (simp add: linspace_def)

lemma length_beta: "length (beta n) = n"
  by (simp add: beta_def length_linspace)

lemma beta_nth:
  assumes "k < n"
  shows "beta n ! k = \<i> * complex_of_real (real k - real (n div 2))"
proof -
  let ?a = "real_of_int ((- (int n - 1)) div 2)" and ?b = "real_of_int ((int n - 1) div 2)"
  from assms have pos: "0 < n" by simp
  have "(int n - 1) div 2 - (- (int n - 1)) div 2 = int n - 1"
    using pos by (intro floor_half_span) simp
  then have "?b - ?a = real_of_int (int n - 1)" by (metis of_int_diff)
  also have "\<dots> = real (n - 1)" using pos by (simp add: of_nat_diff)
  finally have span: "?b - ?a = real (n - 1)" .
  have "linspace ?a ?b n ! k = ?a + real k" using span assms by (rule linspace_unit_step)
  moreover have "?a = - real (n div 2)" using floor_half_start [OF pos] by simp
  ultimately show ?thesis using assms by (simp add: beta_def length_linspace)
qed

text \<open>
  C2, as stated, makes the support of an even length run between the half-integers
  \<open>\<plusminus>(length - 1) / 2\<close>. For length 2 the code gives \<open>-i, 0\<close>, not
  \<open>-i/2, i/2\<close>: its end points are rounded down by \<open>//\<close>.
\<close>

theorem beta_even_counterexample:
  "beta 2 ! 0 = - \<i> \<and>
   linspace (- (real 2 - 1) / 2) ((real 2 - 1) / 2) 2 ! 0 = - 1 / 2 \<and>
   beta 2 ! 0 \<noteq> \<i> * complex_of_real (linspace (- (real 2 - 1) / 2) ((real 2 - 1) / 2) 2 ! 0)"
  by (simp add: beta_def linspace_def complex_eq_iff)

text \<open>
  C2, amended: for every length, the support has that length and its \<open>k\<close>-th entry
  is \<open>i * (k - length div 2)\<close>, the end points of the \<open>linspace\<close> being
  \<open>floor(-(length - 1) / 2)\<close> and \<open>floor((length - 1) / 2)\<close>. For an odd length
  this is \<open>i * linspace(-(length - 1) / 2, (length - 1) / 2, length)[k]\<close>; for an even
  length the entries are \<open>i\<close> times the integers from \<open>-length / 2\<close> to
  \<open>length / 2 - 1\<close>.
\<close>

theorem beta_entries:
  "length (beta n) = n \<and>
   (\<forall>k<n. beta n ! k = \<i> * complex_of_real (real k - real (n div 2))) \<and>
   (odd n \<longrightarrow> (\<forall>k<n. beta n ! k = \<i> * complex_of_real (linspace (- (real n - 1) / 2) ((real n - 1) / 2) n ! k)))"
proof (intro conjI allI impI)
  show "length (beta n) = n" by (rule length_beta)
next
  fix k assume "k < n" then show "beta n ! k = \<i> * complex_of_real (real k - real (n div 2))" by (rule beta_nth)
next
  fix k assume o: "odd n" and k: "k < n"
  then obtain m where n: "n = 2 * m + 1" by (auto elim: oddE)
  have "(real n - 1) / 2 - (- (real n - 1) / 2) = real (n - 1)" using n by simp
  from linspace_unit_step [OF this k]
  have "linspace (- (real n - 1) / 2) ((real n - 1) / 2) n ! k = real k - real (n div 2)"
    using n by simp
  with beta_nth [OF k] show "beta n ! k = \<i> * complex_of_real (linspace (- (real n - 1) / 2) ((real n - 1) / 2) n ! k)"
    by simp
qed


theorem beta_entries_witness:
  "(1::nat) < 3 \<and> odd (3::nat) \<and> length (beta 3) = 3 \<and> beta 3 ! 1 = 0 \<and>
   beta 3 ! 1 = \<i> * complex_of_real (linspace (- (real 3 - 1) / 2) ((real 3 - 1) / 2) 3 ! 1)"
proof -
  have k: "(1::nat) < 3" and o: "odd (3::nat)" by simp_all
  from beta_entries [of 3]
  have a: "length (beta 3) = 3"
    and b: "\<forall>k<3. beta 3 ! k = \<i> * complex_of_real (real k - real (3 div 2))"
    and c: "odd (3::nat) \<longrightarrow> (\<forall>k<3. beta 3 ! k =
              \<i> * complex_of_real (linspace (- (real 3 - 1) / 2) ((real 3 - 1) / 2) 3 ! k))"
    by blast+
  from b k have "beta 3 ! 1 = \<i> * complex_of_real (real 1 - real (3 div 2))" by blast
  then have b1: "beta 3 ! 1 = 0" by simp
  from c o k have "beta 3 ! 1 =
      \<i> * complex_of_real (linspace (- (real 3 - 1) / 2) ((real 3 - 1) / 2) 3 ! 1)" by blast
  with k o a b1 show ?thesis by blast
qed


subsection \<open>The residual\<close>

lemma map2_nth_upt:
  "length xs = n \<Longrightarrow> length ys = n \<Longrightarrow> map2 f xs ys = map (\<lambda>k. f (xs ! k) (ys ! k)) [0..<n]"
  by (rule nth_equalityI) simp_all

lemma broadcast2_same:
  "length xs = n \<Longrightarrow> length ys = n \<Longrightarrow>
   broadcast2 f xs ys = Inr (map (\<lambda>k. f (xs ! k) (ys ! k)) [0..<n])"
  by (simp add: broadcast2_def map2_nth_upt)

lemma Re_mult_cnj: "Re (d * cnj d) = (cmod d)\<^sup>2"
  by (simp add: complex_mult_cnj cmod_power2)

text \<open>
  C4: for every parameter pair \<open>v = (amplitude, phaseGradient)\<close> and every two
  complex spectra of the length the evaluator was built for, the evaluator returns the
  sum over all indices \<open>k\<close> of
  \<open>|target[k] - reference[k] * amplitude * exp(phaseGradient * beta[k])|\<^sup>2\<close>,
  a real number that is not negative.
\<close>

theorem rss_value:
  assumes "length arg1 = n" and "length arg2 = n"
  shows "rss_factory n v arg1 arg2 =
           Inr (\<Sum>k\<leftarrow>[0..<n]. (cmod (arg2 ! k - arg1 ! k * complex_of_real (fst v)
                                            * exp (complex_of_real (snd v) * beta n ! k)))\<^sup>2) \<and>
         0 \<le> (\<Sum>k\<leftarrow>[0..<n]. (cmod (arg2 ! k - arg1 ! k * complex_of_real (fst v)
                                            * exp (complex_of_real (snd v) * beta n ! k)))\<^sup>2)"
proof
  let ?model = "map (\<lambda>k. arg1 ! k * complex_of_real (fst v) * exp (complex_of_real (snd v) * beta n ! k)) [0..<n]"
  have m: "broadcast2 (*) (map (\<lambda>a. a * complex_of_real (fst v)) arg1)
             (map (\<lambda>b. exp (complex_of_real (snd v) * b)) (beta n)) = Inr ?model"
    using assms(1) by (subst broadcast2_same [where n = n]) (simp_all add: length_beta)
  have d: "broadcast2 (-) arg2 ?model = Inr (map (\<lambda>k. arg2 ! k - ?model ! k) [0..<n])"
    using assms(2) by (subst broadcast2_same [where n = n]) simp_all
  show "rss_factory n v arg1 arg2 =
           Inr (\<Sum>k\<leftarrow>[0..<n]. (cmod (arg2 ! k - arg1 ! k * complex_of_real (fst v)
                                            * exp (complex_of_real (snd v) * beta n ! k)))\<^sup>2)"
  proof -
    have "rss (beta n) v arg1 arg2 =
            Inr (sum_list (map (\<lambda>d. Re (d * cnj d)) (map (\<lambda>k. arg2 ! k - ?model ! k) [0..<n])))"
      by (simp only: rss_def m d sum.case)
    also have "map (\<lambda>d. Re (d * cnj d)) (map (\<lambda>k. arg2 ! k - ?model ! k) [0..<n]) =
            map (\<lambda>k. (cmod (arg2 ! k - arg1 ! k * complex_of_real (fst v)
                                            * exp (complex_of_real (snd v) * beta n ! k)))\<^sup>2) [0..<n]"
    proof -
      have "map (\<lambda>k. arg2 ! k - ?model ! k) [0..<n] =
            map (\<lambda>k. arg2 ! k - arg1 ! k * complex_of_real (fst v)
                                 * exp (complex_of_real (snd v) * beta n ! k)) [0..<n]"
        by (rule map_cong) simp_all
      then show ?thesis by (simp only: map_map comp_def Re_mult_cnj)
    qed
    finally show ?thesis by (simp only: rss_factory_def)
  qed
  show "0 \<le> (\<Sum>k\<leftarrow>[0..<n]. (cmod (arg2 ! k - arg1 ! k * complex_of_real (fst v)
                                            * exp (complex_of_real (snd v) * beta n ! k)))\<^sup>2)"
    by (rule sum_list_nonneg) auto
qed

theorem rss_value_witness:
  "length [2::complex] = 1 \<and> length [5::complex] = 1 \<and>
   rss_factory 1 (3, 7) [2] [5] = Inr 1"
proof -
  have a: "length [2::complex] = 1" and b: "length [5::complex] = 1" by simp_all
  from rss_value [OF a b, of "(3, 7)"] a b show ?thesis
    by (simp add: beta_def linspace_def)
qed

section \<open>Shapes and errors of the array operations\<close>

lemma nrows_tabulate2 [simp]: "nrows (tabulate2 r c f) = r"
  by (simp add: nrows_def tabulate2_def)

lemma ncols_tabulate2 [simp]: "ncols (tabulate2 r c f) = c"
  by (simp add: tabulate2_def)

lemma rect_tabulate2 [simp]: "rect (tabulate2 r c f)"
  by (simp add: rect_def tabulate2_def list_all_iff)

lemma cell_tabulate2 [simp]: "i < r \<Longrightarrow> j < c \<Longrightarrow> cell (tabulate2 r c f) i j = f i j"
  by (simp add: cell_def tabulate2_def)

lemma nrows_map_array [simp]: "nrows (map_array f a) = nrows a"
  by (simp add: nrows_def map_array_def)

lemma ncols_map_array [simp]: "ncols (map_array f a) = ncols a"
  by (simp add: map_array_def)

lemma rect_map_array [simp]: "rect (map_array f a) = rect a"
  by (simp add: rect_def map_array_def list_all_iff)

lemma cell_map_array:
  "rect a \<Longrightarrow> i < nrows a \<Longrightarrow> j < ncols a \<Longrightarrow> cell (map_array f a) i j = f (cell a i j)"
  by (simp add: cell_def map_array_def rect_def nrows_def list_all_length)

lemma length_fftshift [simp]: "length (fftshift xs) = length xs"
  by (auto simp: fftshift_def Let_def)

lemma length_ifftshift [simp]: "length (ifftshift xs) = length xs"
  by (auto simp: ifftshift_def Let_def)

lemma set_drop_take: "set (drop p xs @ take p xs) = set xs"
proof -
  have "set (drop p xs @ take p xs) = set (take p xs @ drop p xs)"
    by (simp only: set_append Un_commute)
  then show ?thesis by (simp only: append_take_drop_id)
qed

lemma set_fftshift [simp]: "set (fftshift xs) = set xs"
  by (simp only: fftshift_def Let_def set_drop_take)

lemma set_ifftshift [simp]: "set (ifftshift xs) = set xs"
  by (simp only: ifftshift_def Let_def set_drop_take)

lemma shape_fftshift2 [simp]: "nrows (fftshift2 a) = nrows a" "ncols (fftshift2 a) = ncols a"
  by (simp_all add: fftshift2_def nrows_def)

lemma shape_ifftshift2 [simp]: "nrows (ifftshift2 a) = nrows a" "ncols (ifftshift2 a) = ncols a"
  by (simp_all add: ifftshift2_def nrows_def)

lemma rect_ifftshift2 [simp]: "rect (ifftshift2 a) = rect a"
  by (simp add: rect_def ifftshift2_def list_all_iff)

lemma rect_fftshift2 [simp]: "rect (fftshift2 a) = rect a"
  by (simp add: rect_def fftshift2_def list_all_iff)

lemma all_finite_ifftshift2 [simp]: "all_finite (ifftshift2 a) = all_finite a"
  by (simp add: all_finite_def ifftshift2_def list_all_iff)

lemma fft2_shape:
  "fft2 a = Inr b \<Longrightarrow> nrows b = nrows a \<and> ncols b = ncols a \<and> rect b \<and> 0 < nrows a \<and> 0 < ncols a"
  by (auto simp: fft2_def split: if_splits)

lemma ifft2_shape:
  "ifft2 a = Inr b \<Longrightarrow> nrows b = nrows a \<and> ncols b = ncols a \<and> rect b"
  by (auto simp: ifft2_def split: if_splits)

lemma ifft2_nf_shape:
  "ifft2_nf a = Inr b \<Longrightarrow> nrows b = nrows a \<and> ncols b = ncols a \<and> rect b"
  by (auto simp: ifft2_nf_def split: if_splits sum.splits dest: ifft2_shape)

lemma fft2_error: "fft2 a = Inl e \<Longrightarrow> e = FFTSizeError"
  by (auto simp: fft2_def split: if_splits)

lemma ifft2_nf_error: "ifft2_nf a = Inl e \<Longrightarrow> e = FFTSizeError"
  by (auto simp: ifft2_nf_def ifft2_def split: if_splits sum.splits)

lemma ifft2_nf_total: "0 < nrows a \<Longrightarrow> 0 < ncols a \<Longrightarrow> \<exists>b. ifft2_nf a = Inr b"
  by (auto simp: ifft2_nf_def ifft2_def)

lemma np_zeros_error: "np_zeros r c = Inl e \<Longrightarrow> e = NegativeDimError"
  by (auto simp: np_zeros_def split: if_splits)

lemma setslice2_error: "setslice2 a rs cs src = Inl e \<Longrightarrow> e = BroadcastError"
  by (auto simp: setslice2_def Let_def split: if_splits)

lemma setslice2_shape:
  "setslice2 a rs cs src = Inr b \<Longrightarrow> nrows b = nrows a \<and> ncols b = ncols a \<and> rect b"
  by (auto simp: setslice2_def Let_def split: if_splits)

lemma shape_getslice2 [simp]:
  "nrows (getslice2 a rs cs) = slice_len (fst rs) (snd rs) (nrows a)"
  "ncols (getslice2 a rs cs) = slice_len (fst cs) (snd cs) (ncols a)"
  by (simp_all add: getslice2_def nrows_def slice_def slice_len_def slice_index_def)

lemma length_freq_axis [simp]: "length (freq_axis n d) = nat n"
  by (simp add: freq_axis_def Let_def)

lemma pad_grids_error: "pad_grids gx gy padding = Inl e \<Longrightarrow> e = NegativeDimError \<or> e = BroadcastError"
  by (auto simp: pad_grids_def Let_def split: sum.splits dest: np_zeros_error setslice2_error)

lemma inverse_spectrum_error:
  "inverse_spectrum a b pr pc dx dy w = Inl e \<Longrightarrow> e = FFTSizeError"
  by (auto simp: inverse_spectrum_def Let_def split: sum.splits dest: fft2_error ifft2_nf_error)

lemma recon_error:
  "recon gx gy dx dy padding w = Inl e \<Longrightarrow>
   e = WeightRangeError \<and> (w < 0 \<or> 1 < w) \<or>
   \<not> (w < 0 \<or> 1 < w) \<and> (e = NegativeDimError \<or> e = BroadcastError \<or> e = FFTSizeError)"
  by (auto simp: recon_def Let_def split: if_splits sum.splits prod.splits
      dest: pad_grids_error inverse_spectrum_error)

section \<open>Which errors the scan and the reconstruction can raise\<close>

lemma np_index_error: "np_index i n = Inl e \<Longrightarrow> e = IndexError"
  by (auto simp: np_index_def split: if_splits)

lemma setitem_error: "setitem a rc v = Inl e \<Longrightarrow> e = IndexError"
  by (auto simp: setitem_def split: sum.splits dest: np_index_error)

lemma zero_bad_pixels_error: "zero_bad_pixels im ps = Inl e \<Longrightarrow> e = IndexError"
  by (induction ps arbitrary: im) (auto split: sum.splits dest: setitem_error)

lemma image_reduction_error: "image_reduction im roi bp = Inl e \<Longrightarrow> e = IndexError"
  by (auto simp: image_reduction_def mask_bad_pixels_def Let_def split: sum.splits option.splits
      dest: zero_bad_pixels_error)

lemma shifted_ifft_error: "shifted_ifft line = Inl e \<Longrightarrow> e = FFTSizeError"
  by (auto simp: shifted_ifft_def ifft_def split: sum.splits if_splits)

lemma dpc_fit_error: "dpc_fit minimize f a b sp solver tol n = Inl e \<Longrightarrow> e = OptimizerError"
  by (auto simp: dpc_fit_def split: option.splits)

lemma scan_position_error:
  "scan_position minimize roi bp sp solver rows cols rfx rfy ffx ffy index im g = Inl e \<Longrightarrow>
   e = UnravelError \<or> e = IndexError \<or> e = FFTSizeError \<or> e = OptimizerError"
  unfolding scan_position_def
  by (auto simp: unravel_index_def split: sum.splits prod.splits if_splits
      dest: image_reduction_error shifted_ifft_error dpc_fit_error setitem_error)

lemma scan_loop_error:
  assumes "\<And>index im g e. body index im g = Inl e \<Longrightarrow> P e"
    and "scan_loop body index ims g = (Inl e, rest)"
  shows "P e"
  using assms(2)
proof (induction ims arbitrary: index g)
  case Nil
  then show ?case by simp
next
  case (Cons im ims)
  show ?case
  proof (cases "body index im g")
    case (Inl e')
    with Cons.prems have "e = e'" by simp
    with Inl assms(1) show ?thesis by blast
  next
    case (Inr g')
    with Cons.prems have "scan_loop body (index + 1) ims g' = (Inl e, rest)" by simp
    then show ?thesis by (rule Cons.IH)
  qed
qed

lemma scan_loop_done: "scan_loop body index ims g = (Inr g', rest) \<Longrightarrow> rest = []"
  by (induction ims arbitrary: index g) (auto split: sum.splits)

lemma scan_loop_position_error:
  assumes "scan_loop (scan_position minimize roi bp sp solver rows cols rfx rfy ffx ffy)
             index ims g = (Inl e, rest)"
  shows "e = UnravelError \<or> e = IndexError \<or> e = FFTSizeError \<or> e = OptimizerError"
  by (rule scan_loop_error [OF _ assms]) (rule scan_position_error)

lemma scan_all_error:
  assumes "scan_all minimize ref ims sp rows cols solver roi bp = (Inl e, rest)"
  shows "e = UnravelError \<or> e = IndexError \<or> e = FFTSizeError \<or> e = OptimizerError"
  using assms unfolding scan_all_def Let_def
  by (auto split: sum.splits prod.splits
      dest: image_reduction_error shifted_ifft_error scan_loop_position_error)

lemma py_div_error: "py_div x y = Inl e \<Longrightarrow> e = ZeroDivisionError"
  by (auto simp: py_div_def split: if_splits)

lemma finish_run_error:
  assumes "finish_run g lx ly px fd dx dy energy padding w invert scale = Inl e"
  shows "e = SquarePixelError \<and> scale \<and> fst px \<noteq> snd px \<or>
         e = ZeroDivisionError \<or>
         (\<exists>gx gy. recon gx gy dx dy padding w = Inl e)"
  using assms unfolding finish_run_def Let_def
  by (auto split: sum.splits prod.splits if_splits dest: py_div_error)

text \<open>
  C6: \<open>recon\<close> raises the error about \<open>w\<close> if and only if \<open>w < 0\<close> or
  \<open>w > 1\<close>, whatever \<open>gx\<close> and \<open>gy\<close> are, so before anything is computed from
  them; \<open>dpc_runner\<close> raises it under the same condition, and then the image sequence
  it hands back is the one it was given: no element has been pulled.
\<close>

theorem weight_range_check:
  "(recon gx gy dx dy padding w = Inl WeightRangeError) = (w < 0 \<or> 1 < w) \<and>
   (fst (dpc_runner minimize ref image_sequence start_point pixel_size focus_to_det rows cols
           dx dy energy padding w solver roi bad_pixels invert scale) = Inl WeightRangeError)
     = (w < 0 \<or> 1 < w) \<and>
   (w < 0 \<or> 1 < w \<longrightarrow>
      snd (dpc_runner minimize ref image_sequence start_point pixel_size focus_to_det rows cols
             dx dy energy padding w solver roi bad_pixels invert scale) = image_sequence)"
proof (intro conjI impI)
  show r: "(recon gx gy dx dy padding w = Inl WeightRangeError) = (w < 0 \<or> 1 < w)" for gx gy
    using recon_error [of gx gy dx dy padding w WeightRangeError]
    by (auto simp: recon_def)
  show "(fst (dpc_runner minimize ref image_sequence start_point pixel_size focus_to_det rows cols
           dx dy energy padding w solver roi bad_pixels invert scale) = Inl WeightRangeError)
     = (w < 0 \<or> 1 < w)"
  proof (cases "w < 0 \<or> 1 < w")
    case True
    then show ?thesis by (auto simp: dpc_runner_def)
  next
    case False
    obtain res rest where s: "scan_all minimize ref image_sequence start_point rows cols solver roi bad_pixels = (res, rest)"
      by (cases "scan_all minimize ref image_sequence start_point rows cols solver roi bad_pixels")
    show ?thesis
    proof (cases res)
      case (Inl e)
      with s scan_all_error have "e \<noteq> WeightRangeError" by blast
      with False s Inl show ?thesis by (auto simp: dpc_runner_def)
    next
      case (Inr t)
      obtain g lx ly where t: "t = (g, lx, ly)" by (cases t)
      have "finish_run g lx ly pixel_size focus_to_det dx dy energy padding w invert scale \<noteq> Inl WeightRangeError"
      proof
        assume "finish_run g lx ly pixel_size focus_to_det dx dy energy padding w invert scale = Inl WeightRangeError"
        from finish_run_error [OF this] r False show False by auto
      qed
      with False s Inr t show ?thesis by (auto simp: dpc_runner_def)
    qed
  qed
  assume "w < 0 \<or> 1 < w"
  then show "snd (dpc_runner minimize ref image_sequence start_point pixel_size focus_to_det rows cols
             dx dy energy padding w solver roi bad_pixels invert scale) = image_sequence"
    by (auto simp: dpc_runner_def)
qed

theorem weight_range_check_witness:
  "((2::real) < 0 \<or> (1::real) < 2) \<and>
   recon \<lparr>rows_of = [[1]], ncols = 1\<rparr> \<lparr>rows_of = [[1]], ncols = 1\<rparr> 1 1 0 2 = Inl WeightRangeError \<and>
   fst (dpc_runner start_point_optimizer \<lparr>rows_of = [[1]], ncols = 1\<rparr> [\<lparr>rows_of = [[1]], ncols = 1\<rparr>]
          (1, 0) (1, 1) 1 1 1 1 1 1 0 2 ''Nelder-Mead'' None None True True) = Inl WeightRangeError \<and>
   snd (dpc_runner start_point_optimizer \<lparr>rows_of = [[1]], ncols = 1\<rparr> [\<lparr>rows_of = [[1]], ncols = 1\<rparr>]
          (1, 0) (1, 1) 1 1 1 1 1 1 0 2 ''Nelder-Mead'' None None True True)
     = [\<lparr>rows_of = [[1]], ncols = 1\<rparr>]"
  using weight_range_check [of "\<lparr>rows_of = [[1]], ncols = 1\<rparr>" "\<lparr>rows_of = [[1]], ncols = 1\<rparr>" 1 1 0 2
      start_point_optimizer "\<lparr>rows_of = [[1]], ncols = 1\<rparr>" "[\<lparr>rows_of = [[1]], ncols = 1\<rparr>]"
      "(1, 0)" "(1, 1)" 1 1 1 1 "''Nelder-Mead''" None None True True]
  by simp

section \<open>The combined spectrum of recon\<close>

lemma combined_spectrum_cell:
  "i < length ay \<Longrightarrow> j < length ax \<Longrightarrow>
   cell (combined_spectrum ax ay tx ty w) i j =
     (if divisor (ax ! j) (ay ! i) w = Some 0 then Some 0
      else np_divide (numerator (ax ! j) (ay ! i) (cell tx i j) (cell ty i j) w)
             (map_option complex_of_real (divisor (ax ! j) (ay ! i) w)))"
  by (simp add: combined_spectrum_def meshgrid_def Let_def)

lemma shape_combined_spectrum [simp]:
  "nrows (combined_spectrum ax ay tx ty w) = length ay"
  "ncols (combined_spectrum ax ay tx ty w) = length ax"
  "rect (combined_spectrum ax ay tx ty w)"
  by (simp_all add: combined_spectrum_def meshgrid_def Let_def)

lemma all_finite_tabulate2:
  "all_finite (tabulate2 r c f) = (\<forall>i<r. \<forall>j<c. f i j \<noteq> None)"
  by (auto simp: all_finite_def tabulate2_def list_all_iff)

lemma all_finite_cells:
  "rect a \<Longrightarrow> all_finite a = (\<forall>i<nrows a. \<forall>j<ncols a. cell a i j \<noteq> None)"
  by (fastforce simp: all_finite_def rect_def nrows_def cell_def list_all_length)

lemma divisor_finite:
  "divisor (Some kx) (Some ky) w = Some (kx\<^sup>2 * (1 - w) + ky\<^sup>2 * w)"
  by (simp add: divisor_def nf2_def power2_eq_square)

lemma numerator_finite:
  "numerator (Some kx) (Some ky) tx ty w =
     Some (- \<i> * (complex_of_real kx * tx * complex_of_real (1 - w)
                  + complex_of_real ky * ty * complex_of_real w))"
  by (simp add: numerator_def nf2_def)

lemma combined_spectrum_finite_cell:
  assumes "i < length ay" and "j < length ax" and "ax ! j = Some kx" and "ay ! i = Some ky"
  shows "cell (combined_spectrum ax ay tx ty w) i j =
           (if kx\<^sup>2 * (1 - w) + ky\<^sup>2 * w = 0 then Some 0
            else Some (- \<i> * (complex_of_real kx * cell tx i j * complex_of_real (1 - w)
                              + complex_of_real ky * cell ty i j * complex_of_real w)
                       / complex_of_real (kx\<^sup>2 * (1 - w) + ky\<^sup>2 * w)))"
  using assms
  by (simp add: combined_spectrum_cell divisor_finite numerator_finite np_divide_def
      del: of_real_add of_real_mult of_real_diff of_real_power)

lemma all_finite_combined_spectrum:
  assumes "list_all (\<lambda>x. x \<noteq> None) ax" and "list_all (\<lambda>x. x \<noteq> None) ay"
  shows "all_finite (combined_spectrum ax ay tx ty w)"
proof -
  have "cell (combined_spectrum ax ay tx ty w) i j \<noteq> None" if "i < length ay" "j < length ax" for i j
  proof -
    from assms that have "ax ! j \<noteq> None" "ay ! i \<noteq> None" by (simp_all add: list_all_length)
    then obtain kx ky where "ax ! j = Some kx" "ay ! i = Some ky" by auto
    from combined_spectrum_finite_cell [OF that this] show ?thesis by (simp split: if_splits)
  qed
  then show ?thesis by (simp add: all_finite_cells)
qed

lemma freq_axis_finite: "d \<noteq> 0 \<Longrightarrow> list_all (\<lambda>x. x \<noteq> None) (freq_axis n d)"
  by (auto simp: freq_axis_def Let_def list_all_iff np_divide_def)

lemma all_finite_map_Some: "all_finite (map_array Some b)"
  by (simp add: all_finite_def map_array_def list_all_iff)

lemma ifft2_nf_finite:
  assumes "all_finite a" and "ifft2_nf a = Inr b"
  shows "all_finite b"
proof -
  from assms obtain b' where "b = map_array Some b'"
    by (auto simp: ifft2_nf_def split: if_splits sum.splits)
  then show ?thesis by (simp add: all_finite_map_Some)
qed

lemma all_finite_getslice2:
  assumes "all_finite a"
  shows "all_finite (getslice2 a rs cs)"
proof -
  have "x \<noteq> None" if "r \<in> set (slice (fst rs) (snd rs) (rows_of a))"
    and "x \<in> set (slice (fst cs) (snd cs) r)" for r x
  proof -
    from that(1) set_slice [of "fst rs" "snd rs" "rows_of a"] have "r \<in> set (rows_of a)" by blast
    moreover from that(2) set_slice [of "fst cs" "snd cs" r] have "x \<in> set r" by blast
    ultimately show ?thesis using assms by (auto simp: all_finite_def list_all_iff)
  qed
  then show ?thesis by (auto simp: all_finite_def getslice2_def list_all_iff)
qed

lemma all_finite_map_option: "all_finite a \<Longrightarrow> all_finite (map_array (map_option f) a)"
  by (auto simp: all_finite_def map_array_def list_all_iff)

lemma inverse_spectrum_finite:
  assumes "dx \<noteq> 0" and "dy \<noteq> 0" and "inverse_spectrum a b pr pc dx dy w = Inr s"
  shows "all_finite s"
proof -
  from assms(3) obtain fx fy where
    s: "ifft2_nf (ifftshift2 (combined_spectrum (freq_axis pc dx) (freq_axis pr dy)
                    (fftshift2 fx) (fftshift2 fy) w)) = Inr s"
    by (auto simp: inverse_spectrum_def Let_def split: sum.splits)
  have "all_finite (combined_spectrum (freq_axis pc dx) (freq_axis pr dy)
                    (fftshift2 fx) (fftshift2 fy) w)"
    using assms(1,2) by (intro all_finite_combined_spectrum freq_axis_finite)
  then have "all_finite (ifftshift2 (combined_spectrum (freq_axis pc dx) (freq_axis pr dy)
                    (fftshift2 fx) (fftshift2 fy) w))"
    by simp
  then show ?thesis using s by (rule ifft2_nf_finite)
qed

lemma recon_finite:
  assumes "dx \<noteq> 0" and "dy \<noteq> 0" and "recon gx gy dx dy padding w = Inr phi"
  shows "all_finite phi"
proof -
  let ?sl = "roi_slice padding (nrows gx) (ncols gx)"
  from assms(3) obtain a b s where
    i: "inverse_spectrum a b (int (nrows gx) * (2 * padding + 1))
          (int (ncols gx) * (2 * padding + 1)) dx dy w = Inr s"
    and p: "phi = map_array (map_option Re) (getslice2 s (fst ?sl) (snd ?sl))"
    by (auto simp: recon_def Let_def split: if_splits sum.splits prod.splits)
  from assms(1,2) i have "all_finite s" by (rule inverse_spectrum_finite)
  then show ?thesis unfolding p by (intro all_finite_map_option all_finite_getslice2)
qed

lemmas array_eval =
  tabulate2_def cell_def map_array_def nrows_def setslice2_def slice_index_def slice_len_def
  slice_def getslice2_def np_zeros_def roi_slice_def Let_def

lemmas transform_eval =
  fft2_def ifft2_def ifft2_nf_def dft2_sum_def fftshift2_def ifftshift2_def fftshift_def
  ifftshift_def all_finite_def ifft_def dft_sum_def shifted_ifft_def

section \<open>Padding and cropping in recon\<close>

lemma roi_slice_bounds:
  "slice_index (int q * int n) (n * (2 * q + 1)) = q * n"
  "slice_len (int q * int n) ((int q + 1) * int n) (n * (2 * q + 1)) = n"
proof -
  have a: "int q * int n = int (q * n)" "(int q + 1) * int n = int ((q + 1) * n)"
    by (simp_all add: algebra_simps)
  have b: "q * n \<le> n * (2 * q + 1)" "(q + 1) * n \<le> n * (2 * q + 1)" by (simp_all add: algebra_simps)
  show "slice_index (int q * int n) (n * (2 * q + 1)) = q * n"
    unfolding a slice_index_def using b by (simp del: of_nat_mult of_nat_add)
  show "slice_len (int q * int n) ((int q + 1) * int n) (n * (2 * q + 1)) = n"
    unfolding a slice_len_def slice_index_def using b by (simp del: of_nat_mult of_nat_add)
qed

lemma tabulate2_cong:
  "(\<And>i j. i < r \<Longrightarrow> j < c \<Longrightarrow> f i j = g i j) \<Longrightarrow> tabulate2 r c f = tabulate2 r c g"
  by (simp add: tabulate2_def)

lemma pad_grids_ok:
  assumes "nrows gy = nrows gx" and "ncols gy = ncols gx"
  shows "pad_grids gx gy (int q) =
           Inr (tabulate2 (nrows gx * (2 * q + 1)) (ncols gx * (2 * q + 1))
                  (\<lambda>i j. if q * nrows gx \<le> i \<and> i < q * nrows gx + nrows gx \<and>
                            q * ncols gx \<le> j \<and> j < q * ncols gx + ncols gx
                         then cell gx (if nrows gx = 1 then 0 else i - q * nrows gx)
                                      (if ncols gx = 1 then 0 else j - q * ncols gx)
                         else 0),
                tabulate2 (nrows gx * (2 * q + 1)) (ncols gx * (2 * q + 1))
                  (\<lambda>i j. if q * nrows gx \<le> i \<and> i < q * nrows gx + nrows gx \<and>
                            q * ncols gx \<le> j \<and> j < q * ncols gx + ncols gx
                         then cell gy (if nrows gx = 1 then 0 else i - q * nrows gx)
                                      (if ncols gx = 1 then 0 else j - q * ncols gx)
                         else 0))"
proof -
  have n: "nat (int (nrows gx) * (2 * int q + 1)) = nrows gx * (2 * q + 1)"
    "nat (int (ncols gx) * (2 * int q + 1)) = ncols gx * (2 * q + 1)"
    by (simp_all add: nat_mult_distrib nat_add_distrib)
  have z: "np_zeros (int (nrows gx) * (2 * int q + 1)) (int (ncols gx) * (2 * int q + 1)) =
        Inr (tabulate2 (nrows gx * (2 * q + 1)) (ncols gx * (2 * q + 1)) (\<lambda>i j. 0))"
  proof -
    have "0 \<le> int (nrows gx) * (2 * int q + 1)" "0 \<le> int (ncols gx) * (2 * int q + 1)"
      by simp_all
    then show ?thesis unfolding np_zeros_def n by (simp add: not_less)
  qed
  have s: "setslice2 (tabulate2 (nrows gx * (2 * q + 1)) (ncols gx * (2 * q + 1)) (\<lambda>i j. 0))
             (int q * int (nrows gx), (int q + 1) * int (nrows gx))
             (int q * int (ncols gx), (int q + 1) * int (ncols gx)) src =
           Inr (tabulate2 (nrows gx * (2 * q + 1)) (ncols gx * (2 * q + 1))
                  (\<lambda>i j. if q * nrows gx \<le> i \<and> i < q * nrows gx + nrows gx \<and>
                            q * ncols gx \<le> j \<and> j < q * ncols gx + ncols gx
                         then cell src (if nrows gx = 1 then 0 else i - q * nrows gx)
                                       (if ncols gx = 1 then 0 else j - q * ncols gx)
                         else 0))"
    if "nrows src = nrows gx" "ncols src = ncols gx" for src :: "real array2"
    unfolding setslice2_def Let_def fst_conv snd_conv nrows_tabulate2 ncols_tabulate2
      roi_slice_bounds that
    by (simp only: simp_thms if_True sum.inject) (rule tabulate2_cong, simp)
  show ?thesis
    unfolding pad_grids_def Let_def roi_slice_def
    by (simp only: z sum.case fst_conv snd_conv s [OF refl refl] s [OF assms] prod.case)
qed

lemma cell_getslice2:
  assumes "rect a" and "0 \<le> r0" "0 \<le> c0" "0 \<le> rn" "0 \<le> cn"
    and "i < nat rn" "j < nat cn" "nat r0 + i < nrows a" "nat c0 + j < ncols a"
  shows "cell (getslice2 a (r0, r0 + rn) (c0, c0 + cn)) i j = cell a (nat r0 + i) (nat c0 + j)"
proof -
  let ?rows = "take (nat rn) (drop (nat r0) (rows_of a))"
  have i: "i < length ?rows" using assms(6,8) by (simp add: nrows_def)
  have "nat r0 \<le> length (rows_of a)" using assms(8) by (simp add: nrows_def)
  with i have row: "?rows ! i = rows_of a ! (nat r0 + i)" by simp
  have "rows_of a ! (nat r0 + i) \<in> set (rows_of a)" using assms(8) by (simp add: nrows_def)
  with assms(1) have len: "length (rows_of a ! (nat r0 + i)) = ncols a"
    by (simp add: rect_def list_all_iff)
  have "cell (getslice2 a (r0, r0 + rn) (c0, c0 + cn)) i j
          = take (nat cn) (drop (nat c0) (?rows ! i)) ! j"
    using assms(2-5) i by (simp add: cell_def getslice2_def slice_nonneg)
  also have "\<dots> = rows_of a ! (nat r0 + i) ! (nat c0 + j)"
  proof -
    have "nat c0 \<le> length (rows_of a ! (nat r0 + i))" using assms(9) len by simp
    then show ?thesis unfolding row using assms(7,9) len by simp
  qed
  finally show ?thesis by (simp add: cell_def)
qed

lemma inverse_spectrum_shape:
  assumes "inverse_spectrum a b pr pc dx dy w = Inr s"
  shows "nrows s = nat pr \<and> ncols s = nat pc \<and> rect s"
proof -
  from assms obtain fx fy where
    s: "ifft2_nf (ifftshift2 (combined_spectrum (freq_axis pc dx) (freq_axis pr dy)
                    (fftshift2 fx) (fftshift2 fy) w)) = Inr s"
    by (auto simp: inverse_spectrum_def Let_def split: sum.splits)
  from ifft2_nf_shape [OF s] show ?thesis by simp
qed

lemma fft2_total: "0 < nrows a \<Longrightarrow> 0 < ncols a \<Longrightarrow> \<exists>b. fft2 a = Inr b"
  by (simp add: fft2_def)

lemma inverse_spectrum_total:
  assumes "0 < nrows a" "0 < ncols a" "0 < nrows b" "0 < ncols b" "0 < pr" "0 < pc"
  shows "\<exists>s. inverse_spectrum a b pr pc dx dy w = Inr s"
proof -
  from assms obtain fx fy where f: "fft2 (map_array complex_of_real a) = Inr fx"
    "fft2 (map_array complex_of_real b) = Inr fy"
    using fft2_total [of "map_array complex_of_real a"] fft2_total [of "map_array complex_of_real b"]
    by auto
  let ?c = "ifftshift2 (combined_spectrum (freq_axis pc dx) (freq_axis pr dy)
                    (fftshift2 fx) (fftshift2 fy) w)"
  have "0 < nrows ?c" "0 < ncols ?c" using assms(5,6) by simp_all
  from ifft2_nf_total [OF this] obtain s where "ifft2_nf ?c = Inr s" by blast
  with f show ?thesis by (simp add: inverse_spectrum_def Let_def)
qed

lemma window_offset:
  "q * n \<le> i \<Longrightarrow> i < q * n + n \<Longrightarrow> (if n = 1 then 0 else i - q * n) = i - q * (n::nat)"
  by auto

text \<open>
  C8: for gradients \<open>gx\<close>, \<open>gy\<close> of one shape \<open>(rows, cols)\<close> and every padding
  \<open>p \<ge> 0\<close>, \<open>recon\<close> builds two grids of shape
  \<open>(rows * (2p + 1), cols * (2p + 1))\<close> that hold \<open>gx\<close> and \<open>gy\<close> in the block of
  shape \<open>(rows, cols)\<close> at offset \<open>(p * rows, p * cols)\<close> and zero elsewhere.
  Whenever \<open>recon\<close> returns, the phase image has the shape of \<open>gx\<close> and its cell
  \<open>(i, j)\<close> is the real part of the inverse transform at
  \<open>(p * rows + i, p * cols + j)\<close>; and it does return when the gradients are not empty
  and \<open>w\<close> is in range.
\<close>

theorem recon_padding_and_crop:
  assumes "0 \<le> padding" and "nrows gy = nrows gx" and "ncols gy = ncols gx"
  shows "\<exists>gxp gyp.
     pad_grids gx gy padding = Inr (gxp, gyp) \<and>
     shape gxp = (nrows gx * nat (2 * padding + 1), ncols gx * nat (2 * padding + 1)) \<and>
     shape gyp = shape gxp \<and>
     (\<forall>i<nrows gxp. \<forall>j<ncols gxp.
        if nat padding * nrows gx \<le> i \<and> i < (nat padding + 1) * nrows gx \<and>
           nat padding * ncols gx \<le> j \<and> j < (nat padding + 1) * ncols gx
        then cell gxp i j = cell gx (i - nat padding * nrows gx) (j - nat padding * ncols gx) \<and>
             cell gyp i j = cell gy (i - nat padding * nrows gx) (j - nat padding * ncols gx)
        else cell gxp i j = 0 \<and> cell gyp i j = 0) \<and>
     (\<forall>phi. recon gx gy dx dy padding w = Inr phi \<longrightarrow>
        shape phi = shape gx \<and>
        (\<exists>spatial.
           inverse_spectrum gxp gyp (int (nrows gx) * (2 * padding + 1))
             (int (ncols gx) * (2 * padding + 1)) dx dy w = Inr spatial \<and>
           shape spatial = shape gxp \<and>
           (\<forall>i<nrows gx. \<forall>j<ncols gx.
              cell phi i j = map_option Re (cell spatial (nat padding * nrows gx + i)
                                                       (nat padding * ncols gx + j))))) \<and>
     (0 < nrows gx \<and> 0 < ncols gx \<and> 0 \<le> w \<and> w \<le> 1 \<longrightarrow>
        (\<exists>phi. recon gx gy dx dy padding w = Inr phi))"
proof -
  from assms(1) obtain q where q: "padding = int q" using nonneg_int_cases by blast
  let ?R = "nrows gx * (2 * q + 1)" and ?C = "ncols gx * (2 * q + 1)"
  let ?win = "\<lambda>i j. q * nrows gx \<le> i \<and> i < q * nrows gx + nrows gx \<and>
                    q * ncols gx \<le> j \<and> j < q * ncols gx + ncols gx"
  let ?fill = "\<lambda>g i j. if ?win i j
                       then cell g (if nrows gx = 1 then 0 else i - q * nrows gx)
                                   (if ncols gx = 1 then 0 else j - q * ncols gx)
                       else (0::real)"
  let ?gxp = "tabulate2 ?R ?C (?fill gx)" and ?gyp = "tabulate2 ?R ?C (?fill gy)"
  let ?pr = "int (nrows gx) * (2 * padding + 1)" and ?pc = "int (ncols gx) * (2 * padding + 1)"
  have pg: "pad_grids gx gy padding = Inr (?gxp, ?gyp)"
    unfolding q using assms(2,3) by (rule pad_grids_ok)
  have n: "nat (2 * padding + 1) = 2 * q + 1" "nat padding = q"
    unfolding q by (simp_all add: nat_add_distrib nat_mult_distrib)
  have np: "nat ?pr = ?R" "nat ?pc = ?C"
    unfolding q by (simp_all add: nat_mult_distrib nat_add_distrib)
  have sh: "shape ?gxp = (nrows gx * nat (2 * padding + 1), ncols gx * nat (2 * padding + 1))"
    "shape ?gyp = shape ?gxp"
    by (simp_all add: shape_def n)
  have cells: "if nat padding * nrows gx \<le> i \<and> i < (nat padding + 1) * nrows gx \<and>
           nat padding * ncols gx \<le> j \<and> j < (nat padding + 1) * ncols gx
        then cell ?gxp i j = cell gx (i - nat padding * nrows gx) (j - nat padding * ncols gx) \<and>
             cell ?gyp i j = cell gy (i - nat padding * nrows gx) (j - nat padding * ncols gx)
        else cell ?gxp i j = 0 \<and> cell ?gyp i j = 0"
    if "i < nrows ?gxp" "j < ncols ?gxp" for i j
  proof -
    from that have ij: "i < ?R" "j < ?C" by simp_all
    have w: "(nat padding * nrows gx \<le> i \<and> i < (nat padding + 1) * nrows gx \<and>
           nat padding * ncols gx \<le> j \<and> j < (nat padding + 1) * ncols gx) = ?win i j"
      unfolding n by (simp add: algebra_simps)
    have cx: "cell ?gxp i j = ?fill gx i j" and cy: "cell ?gyp i j = ?fill gy i j"
      using ij by (simp_all only: cell_tabulate2)
    show ?thesis
    proof (cases "?win i j")
      case True
      then have o: "(if nrows gx = 1 then 0 else i - q * nrows gx) = i - q * nrows gx"
        "(if ncols gx = 1 then 0 else j - q * ncols gx) = j - q * ncols gx"
        by (auto intro!: window_offset)
      from True w have c: "nat padding * nrows gx \<le> i \<and> i < (nat padding + 1) * nrows gx \<and>
           nat padding * ncols gx \<le> j \<and> j < (nat padding + 1) * ncols gx"
        by blast
      from True have "?fill gx i j = cell gx (i - q * nrows gx) (j - q * ncols gx)"
        "?fill gy i j = cell gy (i - q * nrows gx) (j - q * ncols gx)"
        unfolding o by (simp_all only: if_True simp_thms)
      then have a: "cell ?gxp i j = cell gx (i - nat padding * nrows gx) (j - nat padding * ncols gx)"
        and b: "cell ?gyp i j = cell gy (i - nat padding * nrows gx) (j - nat padding * ncols gx)"
        unfolding cx cy n(2) by blast+
      show ?thesis by (simp only: if_P [OF c] a b simp_thms)
    next
      case False
      with w have c: "\<not> (nat padding * nrows gx \<le> i \<and> i < (nat padding + 1) * nrows gx \<and>
           nat padding * ncols gx \<le> j \<and> j < (nat padding + 1) * ncols gx)"
        by blast
      from False have "?fill gx i j = 0" "?fill gy i j = 0" by (simp_all only: if_False simp_thms)
      then have a: "cell ?gxp i j = 0" and b: "cell ?gyp i j = 0"
        unfolding cx cy by blast+
      show ?thesis by (simp only: if_not_P [OF c] a b simp_thms)
    qed
  qed
  have crop: "shape phi = shape gx \<and>
        (\<exists>spatial. inverse_spectrum ?gxp ?gyp ?pr ?pc dx dy w = Inr spatial \<and>
           shape spatial = shape ?gxp \<and>
           (\<forall>i<nrows gx. \<forall>j<ncols gx.
              cell phi i j = map_option Re (cell spatial (nat padding * nrows gx + i)
                                                       (nat padding * ncols gx + j))))"
    if r: "recon gx gy dx dy padding w = Inr phi" for phi
  proof -
    let ?sl = "roi_slice padding (nrows gx) (ncols gx)"
    from r pg obtain spatial where
      i: "inverse_spectrum ?gxp ?gyp ?pr ?pc dx dy w = Inr spatial"
      and p: "phi = map_array (map_option Re) (getslice2 spatial (fst ?sl) (snd ?sl))"
      by (auto simp: recon_def Let_def split: if_splits sum.splits)
    from inverse_spectrum_shape [OF i] np
    have s: "nrows spatial = ?R" "ncols spatial = ?C" "rect spatial" by simp_all
    have sl: "fst ?sl = (int (q * nrows gx), int (q * nrows gx) + int (nrows gx))"
      "snd ?sl = (int (q * ncols gx), int (q * ncols gx) + int (ncols gx))"
      unfolding q roi_slice_def by (simp_all add: algebra_simps)
    let ?crop = "getslice2 spatial (fst ?sl) (snd ?sl)"
    have cs: "nrows ?crop = nrows gx" "ncols ?crop = ncols gx"
      unfolding q roi_slice_def shape_getslice2 fst_conv snd_conv s
      by (simp_all only: roi_slice_bounds)
    have rc: "rect ?crop" using s(3) by (rule getslice2_rect)
    have "cell phi i j = map_option Re (cell spatial (nat padding * nrows gx + i)
                                                    (nat padding * ncols gx + j))"
      if "i < nrows gx" "j < ncols gx" for i j
    proof -
      have "cell phi i j = map_option Re (cell ?crop i j)"
        unfolding p using rc that cs by (simp add: cell_map_array)
      also have "cell ?crop i j = cell spatial (nat (int (q * nrows gx)) + i) (nat (int (q * ncols gx)) + j)"
        unfolding sl
      proof (rule cell_getslice2)
        show "rect spatial" by (rule s(3))
        show "nat (int (q * nrows gx)) + i < nrows spatial"
          unfolding s nat_int using that(1) by (simp add: algebra_simps)
        show "nat (int (q * ncols gx)) + j < ncols spatial"
          unfolding s nat_int using that(2) by (simp add: algebra_simps)
        show "i < nat (int (nrows gx))" "j < nat (int (ncols gx))" using that by simp_all
      qed simp_all
      finally show ?thesis unfolding n nat_int by simp
    qed
    moreover have "shape phi = shape gx"
      unfolding p by (simp only: shape_def nrows_map_array ncols_map_array cs)
    moreover have "shape spatial = shape ?gxp" by (simp add: shape_def s)
    ultimately show ?thesis using i by blast
  qed
  have total: "\<exists>phi. recon gx gy dx dy padding w = Inr phi"
    if "0 < nrows gx \<and> 0 < ncols gx \<and> 0 \<le> w \<and> w \<le> 1"
  proof -
    from that have "0 < nrows ?gxp" "0 < ncols ?gxp" "0 < nrows ?gyp" "0 < ncols ?gyp"
      "0 < ?pr" "0 < ?pc"
      unfolding q by simp_all
    from inverse_spectrum_total [OF this]
    obtain s where "inverse_spectrum ?gxp ?gyp ?pr ?pc dx dy w = Inr s" by blast
    with that pg show ?thesis by (simp add: recon_def Let_def)
  qed
  from pg sh cells crop total show ?thesis by blast
qed

theorem recon_padding_and_crop_witness:
  "(0::int) \<le> 1 \<and>
   nrows \<lparr>rows_of = [[2::real]], ncols = 1\<rparr> = nrows \<lparr>rows_of = [[1::real]], ncols = 1\<rparr> \<and>
   ncols \<lparr>rows_of = [[2::real]], ncols = 1\<rparr> = ncols \<lparr>rows_of = [[1::real]], ncols = 1\<rparr> \<and>
   (\<exists>gxp gyp phi.
      pad_grids \<lparr>rows_of = [[1]], ncols = 1\<rparr> \<lparr>rows_of = [[2]], ncols = 1\<rparr> 1 = Inr (gxp, gyp) \<and>
      shape gxp = (3, 3) \<and> shape gyp = (3, 3) \<and>
      cell gxp 1 1 = 1 \<and> cell gyp 1 1 = 2 \<and> cell gxp 0 2 = 0 \<and> cell gyp 2 1 = 0 \<and>
      recon \<lparr>rows_of = [[1]], ncols = 1\<rparr> \<lparr>rows_of = [[2]], ncols = 1\<rparr> 1 1 1 (1 / 2) = Inr phi \<and>
      shape phi = (1, 1))"
proof -
  let ?gx = "\<lparr>rows_of = [[1::real]], ncols = 1\<rparr>" and ?gy = "\<lparr>rows_of = [[2::real]], ncols = 1\<rparr>"
  have p: "(0::int) \<le> 1" by simp
  have r: "nrows ?gy = nrows ?gx" and c: "ncols ?gy = ncols ?gx" by (simp_all add: nrows_def)
  have d: "nrows ?gx = 1" "ncols ?gx = 1" by (simp_all add: nrows_def)
  from recon_padding_and_crop [OF p r c, of 1 1 "1 / 2"]
  obtain gxp gyp where
    pg: "pad_grids ?gx ?gy 1 = Inr (gxp, gyp)"
    and sx: "shape gxp = (nrows ?gx * nat (2 * 1 + 1), ncols ?gx * nat (2 * 1 + 1))"
    and sy: "shape gyp = shape gxp"
    and cells: "\<forall>i<nrows gxp. \<forall>j<ncols gxp.
        if nat 1 * nrows ?gx \<le> i \<and> i < (nat 1 + 1) * nrows ?gx \<and>
           nat 1 * ncols ?gx \<le> j \<and> j < (nat 1 + 1) * ncols ?gx
        then cell gxp i j = cell ?gx (i - nat 1 * nrows ?gx) (j - nat 1 * ncols ?gx) \<and>
             cell gyp i j = cell ?gy (i - nat 1 * nrows ?gx) (j - nat 1 * ncols ?gx)
        else cell gxp i j = 0 \<and> cell gyp i j = 0"
    and crop: "\<forall>phi. recon ?gx ?gy 1 1 1 (1 / 2) = Inr phi \<longrightarrow> shape phi = shape ?gx"
    and total: "0 < nrows ?gx \<and> 0 < ncols ?gx \<and> (0::real) \<le> 1 / 2 \<and> (1 / 2 :: real) \<le> 1 \<longrightarrow>
        (\<exists>phi. recon ?gx ?gy 1 1 1 (1 / 2) = Inr phi)"
    by blast
  from sx d have sx': "shape gxp = (3, 3)" by simp
  with sy have sy': "shape gyp = (3, 3)" by simp
  from sx' have dims: "nrows gxp = 3" "ncols gxp = 3" by (simp_all add: shape_def)
  from cells dims have "cell gxp 1 1 = cell ?gx 0 0 \<and> cell gyp 1 1 = cell ?gy 0 0"
    unfolding d by (auto dest!: spec [where x = 1])
  then have c11: "cell gxp 1 1 = 1" "cell gyp 1 1 = 2" by (simp_all add: cell_def)
  from cells dims have c02: "cell gxp 0 2 = 0"
    unfolding d by (auto dest!: spec [where x = 0] dest: spec [where x = 2])
  from cells dims have c21: "cell gyp 2 1 = 0"
    unfolding d by (auto dest!: spec [where x = 2] dest: spec [where x = 1])
  from total d obtain phi where phi: "recon ?gx ?gy 1 1 1 (1 / 2) = Inr phi" by auto
  with crop d have "shape phi = (1, 1)" by (simp add: shape_def)
  with pg sx' sy' c11 c02 c21 phi p r c show ?thesis by blast
qed

section \<open>The masked spectrum inside recon\<close>

lemma freq_axis_nth:
  assumes "d \<noteq> 0" and "j < nat n"
  shows "freq_axis n d ! j
           = Some (2 * pi * real_of_int (int j + 1 - (n div 2 + 1)) / (real_of_int n * d))"
proof -
  let ?mid = "n div 2 + 1"
  from assms(2) have n: "0 < n" by simp
  have k: "(1 - ?mid) + int j \<le> n - ?mid" using assms(2) by simp
  have len: "j < length [1 - ?mid .. n - ?mid]" using assms(2) by simp
  have "[1 - ?mid .. n - ?mid] ! j = (1 - ?mid) + int j" using k by (rule nth_upto)
  then have "freq_axis n d ! j
      = np_divide (Some (2 * pi * real_of_int ((1 - ?mid) + int j))) (Some (real_of_int n * d))"
    unfolding freq_axis_def Let_def using len by (simp del: upto.simps)
  also have "\<dots> = Some (2 * pi * real_of_int ((1 - ?mid) + int j) / (real_of_int n * d))"
    using assms(1) n by (simp add: np_divide_def)
  also have "(1 - ?mid) + int j = int j + 1 - ?mid" by simp
  finally show ?thesis .
qed

lemma recon_stages:
  assumes "recon gx gy dx dy padding w = Inr phi"
  shows "\<exists>gxp gyp fx fy spatial.
           pad_grids gx gy padding = Inr (gxp, gyp) \<and>
           fft2 (map_array complex_of_real gxp) = Inr fx \<and>
           fft2 (map_array complex_of_real gyp) = Inr fy \<and>
           ifft2_nf (ifftshift2 (combined_spectrum
                       (freq_axis (int (ncols gx) * (2 * padding + 1)) dx)
                       (freq_axis (int (nrows gx) * (2 * padding + 1)) dy)
                       (fftshift2 fx) (fftshift2 fy) w)) = Inr spatial \<and>
           phi = map_array (map_option Re)
                   (getslice2 spatial (fst (roi_slice padding (nrows gx) (ncols gx)))
                                      (snd (roi_slice padding (nrows gx) (ncols gx))))"
  using assms
  by (auto simp: recon_def inverse_spectrum_def Let_def split: if_splits sum.splits prod.splits)

lemma recon_returns:
  assumes "nrows gy = nrows gx" "ncols gy = ncols gx" "0 < nrows gx" "0 < ncols gx"
    and "0 \<le> w" "w \<le> 1"
  shows "\<exists>phi. recon gx gy dx dy (int q) w = Inr phi"
proof -
  obtain gxp gyp where pg: "pad_grids gx gy (int q) = Inr (gxp, gyp)"
    and sh: "nrows gxp = nrows gx * (2 * q + 1)" "ncols gxp = ncols gx * (2 * q + 1)"
      "nrows gyp = nrows gx * (2 * q + 1)" "ncols gyp = ncols gx * (2 * q + 1)"
    using pad_grids_ok [OF assms(1,2), of q] by simp
  from sh assms(3,4) have "0 < nrows gxp" "0 < ncols gxp" "0 < nrows gyp" "0 < ncols gyp"
    "0 < int (nrows gx) * (2 * int q + 1)" "0 < int (ncols gx) * (2 * int q + 1)"
    by simp_all
  from inverse_spectrum_total [OF this]
  obtain s where "inverse_spectrum gxp gyp (int (nrows gx) * (2 * int q + 1))
      (int (ncols gx) * (2 * int q + 1)) dx dy w = Inr s" by blast
  with pg assms(5,6) show ?thesis by (simp add: recon_def Let_def)
qed

text \<open>
  C3: whenever \<open>recon\<close> returns, its result is the cropped real part of the inverse
  transform of the combined spectrum \<open>c\<close> it builds from the transforms \<open>Tx\<close>,
  \<open>Ty\<close> of its own padded grids and from its own frequency axes. With step sizes
  that are not zero, the cell \<open>(i, j)\<close> of that spectrum has the coordinates
  \<open>\<kappa>x = 2\<pi> (j + 1 - mid_col) / (pad_col * dx)\<close> and
  \<open>\<kappa>y = 2\<pi> (i + 1 - mid_row) / (pad_row * dy)\<close>; where the divisor
  \<open>\<kappa>x\<^sup>2 * (1 - w) + \<kappa>y\<^sup>2 * w\<close> is zero the cell is set to zero, and where
  it is not zero the cell is \<open>-i * (\<kappa>x * Tx * (1 - w) + \<kappa>y * Ty * w) / divisor\<close>.
  No division by zero raises, and none shows in the result: every value of the returned
  phase image is finite.
\<close>

theorem dc_term_masked:
  assumes "pad_row = int (nrows gx) * (2 * padding + 1)"
    and "pad_col = int (ncols gx) * (2 * padding + 1)"
    and "mid_row = pad_row div 2 + 1"
    and "mid_col = pad_col div 2 + 1"
  shows "recon gx gy dx dy padding w \<noteq> Inl ZeroDivisionError \<and>
   (\<forall>phi. recon gx gy dx dy padding w = Inr phi \<longrightarrow>
      (\<exists>gxp gyp fx fy c spatial.
         pad_grids gx gy padding = Inr (gxp, gyp) \<and>
         fft2 (map_array complex_of_real gxp) = Inr fx \<and>
         fft2 (map_array complex_of_real gyp) = Inr fy \<and>
         c = combined_spectrum (freq_axis pad_col dx) (freq_axis pad_row dy)
               (fftshift2 fx) (fftshift2 fy) w \<and>
         shape c = (nat pad_row, nat pad_col) \<and>
         ifft2_nf (ifftshift2 c) = Inr spatial \<and>
         phi = map_array (map_option Re)
                 (getslice2 spatial (fst (roi_slice padding (nrows gx) (ncols gx)))
                                    (snd (roi_slice padding (nrows gx) (ncols gx)))) \<and>
         (dx \<noteq> 0 \<and> dy \<noteq> 0 \<longrightarrow>
            all_finite phi \<and>
            (\<forall>i<nat pad_row. \<forall>j<nat pad_col. \<forall>kx ky.
               kx = 2 * pi * real_of_int (int j + 1 - mid_col) / (real_of_int pad_col * dx) \<longrightarrow>
               ky = 2 * pi * real_of_int (int i + 1 - mid_row) / (real_of_int pad_row * dy) \<longrightarrow>
               cell c i j =
                 (if kx\<^sup>2 * (1 - w) + ky\<^sup>2 * w = 0 then Some 0
                  else Some (- \<i> * (complex_of_real kx * cell (fftshift2 fx) i j
                                        * complex_of_real (1 - w)
                                    + complex_of_real ky * cell (fftshift2 fy) i j
                                        * complex_of_real w)
                             / complex_of_real (kx\<^sup>2 * (1 - w) + ky\<^sup>2 * w)))))))"
proof (intro conjI allI impI)
  show "recon gx gy dx dy padding w \<noteq> Inl ZeroDivisionError"
    using recon_error [of gx gy dx dy padding w ZeroDivisionError] by auto
next
  fix phi
  assume r: "recon gx gy dx dy padding w = Inr phi"
  from recon_stages [OF r] obtain gxp gyp fx fy spatial where
    pg: "pad_grids gx gy padding = Inr (gxp, gyp)"
    and fx: "fft2 (map_array complex_of_real gxp) = Inr fx"
    and fy: "fft2 (map_array complex_of_real gyp) = Inr fy"
    and inv: "ifft2_nf (ifftshift2 (combined_spectrum (freq_axis pad_col dx)
                 (freq_axis pad_row dy) (fftshift2 fx) (fftshift2 fy) w)) = Inr spatial"
    and phi: "phi = map_array (map_option Re)
                 (getslice2 spatial (fst (roi_slice padding (nrows gx) (ncols gx)))
                                    (snd (roi_slice padding (nrows gx) (ncols gx))))"
    unfolding assms(1,2) by blast
  let ?c = "combined_spectrum (freq_axis pad_col dx) (freq_axis pad_row dy)
              (fftshift2 fx) (fftshift2 fy) w"
  have sh: "shape ?c = (nat pad_row, nat pad_col)" by (simp add: shape_def)
  have fin: "all_finite phi \<and>
            (\<forall>i<nat pad_row. \<forall>j<nat pad_col. \<forall>kx ky.
               kx = 2 * pi * real_of_int (int j + 1 - mid_col) / (real_of_int pad_col * dx) \<longrightarrow>
               ky = 2 * pi * real_of_int (int i + 1 - mid_row) / (real_of_int pad_row * dy) \<longrightarrow>
               cell ?c i j =
                 (if kx\<^sup>2 * (1 - w) + ky\<^sup>2 * w = 0 then Some 0
                  else Some (- \<i> * (complex_of_real kx * cell (fftshift2 fx) i j
                                        * complex_of_real (1 - w)
                                    + complex_of_real ky * cell (fftshift2 fy) i j
                                        * complex_of_real w)
                             / complex_of_real (kx\<^sup>2 * (1 - w) + ky\<^sup>2 * w))))"
    if d: "dx \<noteq> 0 \<and> dy \<noteq> 0"
  proof (intro conjI allI impI)
    from d r show "all_finite phi" by (blast intro: recon_finite)
  next
    fix i j kx ky
    assume i: "i < nat pad_row" and j: "j < nat pad_col"
      and kx: "kx = 2 * pi * real_of_int (int j + 1 - mid_col) / (real_of_int pad_col * dx)"
      and ky: "ky = 2 * pi * real_of_int (int i + 1 - mid_row) / (real_of_int pad_row * dy)"
    from d j have ax: "freq_axis pad_col dx ! j = Some kx"
      unfolding kx assms(4) by (intro freq_axis_nth) simp_all
    from d i have ay: "freq_axis pad_row dy ! i = Some ky"
      unfolding ky assms(3) by (intro freq_axis_nth) simp_all
    from i j have "i < length (freq_axis pad_row dy)" "j < length (freq_axis pad_col dx)"
      by simp_all
    from combined_spectrum_finite_cell [OF this ax ay]
    show "cell ?c i j =
                 (if kx\<^sup>2 * (1 - w) + ky\<^sup>2 * w = 0 then Some 0
                  else Some (- \<i> * (complex_of_real kx * cell (fftshift2 fx) i j
                                        * complex_of_real (1 - w)
                                    + complex_of_real ky * cell (fftshift2 fy) i j
                                        * complex_of_real w)
                             / complex_of_real (kx\<^sup>2 * (1 - w) + ky\<^sup>2 * w)))" .
  qed
  show "\<exists>gxp gyp fx fy c spatial.
         pad_grids gx gy padding = Inr (gxp, gyp) \<and>
         fft2 (map_array complex_of_real gxp) = Inr fx \<and>
         fft2 (map_array complex_of_real gyp) = Inr fy \<and>
         c = combined_spectrum (freq_axis pad_col dx) (freq_axis pad_row dy)
               (fftshift2 fx) (fftshift2 fy) w \<and>
         shape c = (nat pad_row, nat pad_col) \<and>
         ifft2_nf (ifftshift2 c) = Inr spatial \<and>
         phi = map_array (map_option Re)
                 (getslice2 spatial (fst (roi_slice padding (nrows gx) (ncols gx)))
                                    (snd (roi_slice padding (nrows gx) (ncols gx)))) \<and>
         (dx \<noteq> 0 \<and> dy \<noteq> 0 \<longrightarrow>
            all_finite phi \<and>
            (\<forall>i<nat pad_row. \<forall>j<nat pad_col. \<forall>kx ky.
               kx = 2 * pi * real_of_int (int j + 1 - mid_col) / (real_of_int pad_col * dx) \<longrightarrow>
               ky = 2 * pi * real_of_int (int i + 1 - mid_row) / (real_of_int pad_row * dy) \<longrightarrow>
               cell c i j =
                 (if kx\<^sup>2 * (1 - w) + ky\<^sup>2 * w = 0 then Some 0
                  else Some (- \<i> * (complex_of_real kx * cell (fftshift2 fx) i j
                                        * complex_of_real (1 - w)
                                    + complex_of_real ky * cell (fftshift2 fy) i j
                                        * complex_of_real w)
                             / complex_of_real (kx\<^sup>2 * (1 - w) + ky\<^sup>2 * w)))))"
  proof (intro exI conjI)
    show "pad_grids gx gy padding = Inr (gxp, gyp)" by (rule pg)
    show "fft2 (map_array complex_of_real gxp) = Inr fx" by (rule fx)
    show "fft2 (map_array complex_of_real gyp) = Inr fy" by (rule fy)
    show "?c = ?c" by (rule refl)
    show "shape ?c = (nat pad_row, nat pad_col)" by (rule sh)
    show "ifft2_nf (ifftshift2 ?c) = Inr spatial" by (rule inv)
    show "phi = map_array (map_option Re)
                 (getslice2 spatial (fst (roi_slice padding (nrows gx) (ncols gx)))
                                    (snd (roi_slice padding (nrows gx) (ncols gx))))"
      by (rule phi)
    show "dx \<noteq> 0 \<and> dy \<noteq> 0 \<longrightarrow>
            all_finite phi \<and>
            (\<forall>i<nat pad_row. \<forall>j<nat pad_col. \<forall>kx ky.
               kx = 2 * pi * real_of_int (int j + 1 - mid_col) / (real_of_int pad_col * dx) \<longrightarrow>
               ky = 2 * pi * real_of_int (int i + 1 - mid_row) / (real_of_int pad_row * dy) \<longrightarrow>
               cell ?c i j =
                 (if kx\<^sup>2 * (1 - w) + ky\<^sup>2 * w = 0 then Some 0
                  else Some (- \<i> * (complex_of_real kx * cell (fftshift2 fx) i j
                                        * complex_of_real (1 - w)
                                    + complex_of_real ky * cell (fftshift2 fy) i j
                                        * complex_of_real w)
                             / complex_of_real (kx\<^sup>2 * (1 - w) + ky\<^sup>2 * w))))"
      using fin by (rule impI)
  qed
qed

theorem dc_term_masked_witness:
  "\<exists>phi gxp gyp fx fy c.
     recon \<lparr>rows_of = [[1, 2]], ncols = 2\<rparr> \<lparr>rows_of = [[3, 4]], ncols = 2\<rparr> 1 1 0 (1 / 2) = Inr phi \<and>
     all_finite phi \<and>
     pad_grids \<lparr>rows_of = [[1, 2]], ncols = 2\<rparr> \<lparr>rows_of = [[3, 4]], ncols = 2\<rparr> 0 = Inr (gxp, gyp) \<and>
     fft2 (map_array complex_of_real gxp) = Inr fx \<and>
     fft2 (map_array complex_of_real gyp) = Inr fy \<and>
     c = combined_spectrum (freq_axis 2 1) (freq_axis 1 1) (fftshift2 fx) (fftshift2 fy) (1 / 2) \<and>
     cell c 0 1 = Some 0 \<and>
     cell c 0 0 = Some (- \<i> * (complex_of_real (- pi) * cell (fftshift2 fx) 0 0 * complex_of_real (1 / 2))
                         / complex_of_real (pi\<^sup>2 / 2))"
proof -
  let ?gx = "\<lparr>rows_of = [[1, 2::real]], ncols = 2\<rparr>" and ?gy = "\<lparr>rows_of = [[3, 4::real]], ncols = 2\<rparr>"
  have d: "nrows ?gx = 1" "ncols ?gx = 2" "nrows ?gy = nrows ?gx" "ncols ?gy = ncols ?gx"
    by (simp_all add: nrows_def)
  have "\<exists>phi. recon ?gx ?gy 1 1 (int 0) (1 / 2) = Inr phi"
    by (rule recon_returns) (simp_all add: nrows_def)
  then obtain phi where r: "recon ?gx ?gy 1 1 0 (1 / 2) = Inr phi" by auto
  have e: "(1::int) = int (nrows ?gx) * (2 * 0 + 1)" "(2::int) = int (ncols ?gx) * (2 * 0 + 1)"
    "(1::int) = 1 div 2 + 1" "(2::int) = 2 div 2 + 1"
    by (simp_all add: nrows_def)
  from dc_term_masked [OF e, of ?gy 1 1 "1 / 2"] r
  obtain gxp gyp fx fy c where
    pg: "pad_grids ?gx ?gy 0 = Inr (gxp, gyp)"
    and fx: "fft2 (map_array complex_of_real gxp) = Inr fx"
    and fy: "fft2 (map_array complex_of_real gyp) = Inr fy"
    and c: "c = combined_spectrum (freq_axis 2 1) (freq_axis 1 1) (fftshift2 fx) (fftshift2 fy) (1 / 2)"
    and fin: "(1::real) \<noteq> 0 \<and> (1::real) \<noteq> 0 \<longrightarrow>
        all_finite phi \<and>
        (\<forall>i<nat 1. \<forall>j<nat 2. \<forall>kx ky.
           kx = 2 * pi * real_of_int (int j + 1 - 2) / (real_of_int 2 * 1) \<longrightarrow>
           ky = 2 * pi * real_of_int (int i + 1 - 1) / (real_of_int 1 * 1) \<longrightarrow>
           cell c i j =
             (if kx\<^sup>2 * (1 - 1 / 2) + ky\<^sup>2 * (1 / 2) = 0 then Some 0
              else Some (- \<i> * (complex_of_real kx * cell (fftshift2 fx) i j
                                    * complex_of_real (1 - 1 / 2)
                                + complex_of_real ky * cell (fftshift2 fy) i j
                                    * complex_of_real (1 / 2))
                         / complex_of_real (kx\<^sup>2 * (1 - 1 / 2) + ky\<^sup>2 * (1 / 2)))))"
    by blast
  from fin have af: "all_finite phi"
    and cells: "\<And>i j kx ky. i < nat 1 \<Longrightarrow> j < nat 2 \<Longrightarrow>
           kx = 2 * pi * real_of_int (int j + 1 - 2) / (real_of_int 2 * 1) \<Longrightarrow>
           ky = 2 * pi * real_of_int (int i + 1 - 1) / (real_of_int 1 * 1) \<Longrightarrow>
           cell c i j =
             (if kx\<^sup>2 * (1 - 1 / 2) + ky\<^sup>2 * (1 / 2) = 0 then Some 0
              else Some (- \<i> * (complex_of_real kx * cell (fftshift2 fx) i j
                                    * complex_of_real (1 - 1 / 2)
                                + complex_of_real ky * cell (fftshift2 fy) i j
                                    * complex_of_real (1 / 2))
                         / complex_of_real (kx\<^sup>2 * (1 - 1 / 2) + ky\<^sup>2 * (1 / 2))))"
    by simp_all
  have "cell c 0 1 =
          (if (0::real)\<^sup>2 * (1 - 1 / 2) + 0\<^sup>2 * (1 / 2) = 0 then Some 0
           else Some (- \<i> * (complex_of_real 0 * cell (fftshift2 fx) 0 1 * complex_of_real (1 - 1 / 2)
                             + complex_of_real 0 * cell (fftshift2 fy) 0 1 * complex_of_real (1 / 2))
                      / complex_of_real (0\<^sup>2 * (1 - 1 / 2) + 0\<^sup>2 * (1 / 2))))"
    by (rule cells) simp_all
  then have c01: "cell c 0 1 = Some 0" by simp
  have "cell c 0 0 =
          (if (- pi)\<^sup>2 * (1 - 1 / 2) + 0\<^sup>2 * (1 / 2) = 0 then Some 0
           else Some (- \<i> * (complex_of_real (- pi) * cell (fftshift2 fx) 0 0 * complex_of_real (1 - 1 / 2)
                             + complex_of_real 0 * cell (fftshift2 fy) 0 0 * complex_of_real (1 / 2))
                      / complex_of_real ((- pi)\<^sup>2 * (1 - 1 / 2) + 0\<^sup>2 * (1 / 2))))"
    by (rule cells) simp_all
  then have c00: "cell c 0 0 =
      Some (- \<i> * (complex_of_real (- pi) * cell (fftshift2 fx) 0 0 * complex_of_real (1 / 2))
            / complex_of_real (pi\<^sup>2 / 2))"
    by simp
  from r af pg fx fy c c01 c00 show ?thesis by blast
qed

section \<open>Properties of the scan loop of dpc_runner\<close>

lemma scan_position_index:
  "scan_position minimize roi bp sp solver rows cols rfx rfy ffx ffy index im g = Inr g' \<Longrightarrow>
   index < rows * cols"
  unfolding scan_position_def
  by (auto simp: unravel_index_def split: sum.splits if_splits)

lemma scan_position_past_grid:
  "rows * cols \<le> index \<Longrightarrow>
   scan_position minimize roi bp sp solver rows cols rfx rfy ffx ffy index im g = Inl UnravelError"
  unfolding scan_position_def by (simp add: unravel_index_def)

lemma scan_loop_pulled:
  "scan_loop body index ims g = (r, rest) \<Longrightarrow> length rest \<le> length ims"
  by (induction ims arbitrary: index g) (auto split: sum.splits intro: le_SucI)

lemma scan_loop_append:
  "scan_loop body index xs g = (Inr g', rest) \<Longrightarrow>
   scan_loop body index (xs @ ys) g = scan_loop body (index + length xs) ys g'"
  by (induction xs arbitrary: index g) (auto split: sum.splits)

lemma scan_loop_each:
  assumes "scan_loop body index ims g = (Inr g', rest)" and "n < length ims"
  shows "\<exists>g1 g2. body (index + n) (ims ! n) g1 = Inr g2"
  using assms
proof (induction ims arbitrary: index g n)
  case Nil
  then show ?case by simp
next
  case (Cons im ims)
  from Cons.prems(1) obtain g1 where b: "body index im g = Inr g1"
    and l: "scan_loop body (index + 1) ims g1 = (Inr g', rest)"
    by (auto split: sum.splits)
  show ?case
  proof (cases n)
    case 0
    with b show ?thesis by auto
  next
    case (Suc m)
    with Cons.prems(2) have "m < length ims" by simp
    from Cons.IH [OF l this] Suc show ?thesis by simp
  qed
qed

lemma scan_loop_fits_grid:
  assumes "scan_loop (scan_position minimize roi bp sp solver rows cols rfx rfy ffx ffy)
             index ims g = (Inr g', rest)"
    and "ims \<noteq> []"
  shows "index + length ims \<le> rows * cols"
proof -
  from assms(2) have "length ims - 1 < length ims" by simp
  from scan_loop_each [OF assms(1) this] obtain g1 g2 where
    "scan_position minimize roi bp sp solver rows cols rfx rfy ffx ffy
       (index + (length ims - 1)) (ims ! (length ims - 1)) g1 = Inr g2"
    by blast
  from scan_position_index [OF this] assms(2) show ?thesis
    by (cases ims) simp_all
qed

lemma scan_loop_bound:
  assumes "index \<le> rows * cols"
    and "scan_loop (scan_position minimize roi bp sp solver rows cols rfx rfy ffx ffy)
           index ims g = (r, rest)"
  shows "index + (length ims - length rest) \<le> rows * cols + 1"
  using assms
proof (induction ims arbitrary: index g)
  case Nil
  then show ?case by simp
next
  case (Cons im ims)
  let ?body = "scan_position minimize roi bp sp solver rows cols rfx rfy ffx ffy"
  show ?case
  proof (cases "?body index im g")
    case (Inl e)
    with Cons.prems show ?thesis by simp
  next
    case (Inr g1)
    then have i: "index + 1 \<le> rows * cols" using scan_position_index by fastforce
    from Inr Cons.prems(2) have l: "scan_loop ?body (index + 1) ims g1 = (r, rest)" by simp
    from scan_loop_pulled [OF l] have "length rest \<le> length ims" .
    with Cons.IH [OF i l] show ?thesis by simp
  qed
qed

lemma scan_loop_overrun:
  assumes "scan_loop (scan_position minimize roi bp sp solver rows cols rfx rfy ffx ffy)
             0 (take (rows * cols) ims) g = (Inr g', rest)"
    and "rows * cols < length ims"
  shows "scan_loop (scan_position minimize roi bp sp solver rows cols rfx rfy ffx ffy)
           0 ims g = (Inl UnravelError, drop (rows * cols + 1) ims)"
proof -
  let ?body = "scan_position minimize roi bp sp solver rows cols rfx rfy ffx ffy"
  let ?n = "rows * cols"
  have len: "length (take ?n ims) = ?n" using assms(2) by simp
  have d: "drop ?n ims = ims ! ?n # drop (?n + 1) ims"
    using assms(2) by (simp add: Cons_nth_drop_Suc)
  have "scan_loop ?body 0 (take ?n ims @ drop ?n ims) g
          = scan_loop ?body (0 + length (take ?n ims)) (drop ?n ims) g'"
    using assms(1) by (rule scan_loop_append)
  also have "\<dots> = scan_loop ?body ?n (ims ! ?n # drop (?n + 1) ims) g'"
    unfolding len d by simp
  also have "\<dots> = (Inl UnravelError, drop (?n + 1) ims)"
    by (simp add: scan_position_past_grid)
  finally show ?thesis by simp
qed

lemma scan_all_done:
  assumes "scan_all minimize ref ims sp rows cols solver roi bp = (Inr r, rest)"
  shows "rest = [] \<and> length ims \<le> rows * cols"
proof -
  from assms obtain rfx rfy g g0 where
    l: "scan_loop (scan_position minimize roi bp sp solver rows cols rfx rfy
                     (rss_factory (length rfx)) (rss_factory (length rfy))) 0 ims g0 = (Inr g, rest)"
    unfolding scan_all_def Let_def by (auto split: sum.splits prod.splits)
  from scan_loop_done [OF l] have "rest = []" .
  moreover have "length ims \<le> rows * cols"
  proof (cases "ims = []")
    case True
    then show ?thesis by simp
  next
    case False
    from scan_loop_fits_grid [OF l False] show ?thesis by simp
  qed
  ultimately show ?thesis by simp
qed

lemma scan_all_bound:
  assumes "scan_all minimize ref ims sp rows cols solver roi bp = (r, rest)"
  shows "length rest \<le> length ims \<and> length ims - length rest \<le> rows * cols + 1"
proof -
  let ?zero = "tabulate2 rows cols (\<lambda>i j. 0::real)"
  let ?g0 = "\<lparr>g_ax = ?zero, g_ay = ?zero, g_gx = ?zero, g_gy = ?zero\<rparr>"
  consider "rest = ims"
    | rfx rfy r' where "scan_loop (scan_position minimize roi bp sp solver rows cols rfx rfy
                     (rss_factory (length rfx)) (rss_factory (length rfy))) 0 ims ?g0 = (r', rest)"
    using assms unfolding scan_all_def Let_def by (auto split: sum.splits prod.splits)
  then show ?thesis
  proof cases
    case 1
    then show ?thesis by simp
  next
    case 2
    from scan_loop_pulled [OF 2] scan_loop_bound [OF _ 2] show ?thesis by simp
  qed
qed

lemma scan_all_overrun:
  assumes "scan_all minimize ref (take (rows * cols) ims) sp rows cols solver roi bp = (Inr r, rest)"
    and "rows * cols < length ims"
  shows "scan_all minimize ref ims sp rows cols solver roi bp
           = (Inl UnravelError, drop (rows * cols + 1) ims)"
proof -
  let ?zero = "tabulate2 rows cols (\<lambda>i j. 0::real)"
  let ?g0 = "\<lparr>g_ax = ?zero, g_ay = ?zero, g_gx = ?zero, g_gy = ?zero\<rparr>"
  from assms(1) obtain refx refy rfx rfy g where
    a: "image_reduction ref roi bp = Inr (refx, refy)"
    and b: "shifted_ifft refx = Inr rfx" and c: "shifted_ifft refy = Inr rfy"
    and l: "scan_loop (scan_position minimize roi bp sp solver rows cols rfx rfy
                     (rss_factory (length rfx)) (rss_factory (length rfy)))
              0 (take (rows * cols) ims) ?g0 = (Inr g, rest)"
    unfolding scan_all_def Let_def by (auto split: sum.splits prod.splits)
  from scan_loop_overrun [OF l assms(2)] a b c show ?thesis
    unfolding scan_all_def Let_def by simp
qed

lemma scan_position_steps:
  assumes "scan_position minimize roi bp sp solver rows cols rfx rfy ffx ffy index im g = Inr g'"
  shows "\<exists>imx imy fx fy a b.
           image_reduction im roi bp = Inr (imx, imy) \<and>
           shifted_ifft imx = Inr fx \<and> shifted_ifft imy = Inr fy \<and>
           dpc_fit minimize ffx rfx fx sp solver (1 / 1000000) 2000 = Inr a \<and>
           dpc_fit minimize ffy rfy fy sp solver (1 / 1000000) 2000 = Inr b"
  using assms unfolding scan_position_def
  by (auto split: sum.splits prod.splits)

lemma scan_all_each:
  assumes "scan_all minimize ref ims sp rows cols solver roi bp = (Inr r, rest)"
  shows "\<exists>rfx rfy. \<forall>n<length ims. \<exists>imx imy fx fy a b.
           image_reduction (ims ! n) roi bp = Inr (imx, imy) \<and>
           shifted_ifft imx = Inr fx \<and> shifted_ifft imy = Inr fy \<and>
           dpc_fit minimize (rss_factory (length rfx)) rfx fx sp solver (1 / 1000000) 2000 = Inr a \<and>
           dpc_fit minimize (rss_factory (length rfy)) rfy fy sp solver (1 / 1000000) 2000 = Inr b"
proof -
  from assms obtain rfx rfy g g0 where
    l: "scan_loop (scan_position minimize roi bp sp solver rows cols rfx rfy
                     (rss_factory (length rfx)) (rss_factory (length rfy))) 0 ims g0 = (Inr g, rest)"
    unfolding scan_all_def Let_def by (auto split: sum.splits prod.splits)
  have "\<exists>imx imy fx fy a b.
           image_reduction (ims ! n) roi bp = Inr (imx, imy) \<and>
           shifted_ifft imx = Inr fx \<and> shifted_ifft imy = Inr fy \<and>
           dpc_fit minimize (rss_factory (length rfx)) rfx fx sp solver (1 / 1000000) 2000 = Inr a \<and>
           dpc_fit minimize (rss_factory (length rfy)) rfy fy sp solver (1 / 1000000) 2000 = Inr b"
    if "n < length ims" for n
  proof -
    from scan_loop_each [OF l that] obtain g1 g2 where
      "scan_position minimize roi bp sp solver rows cols rfx rfy
         (rss_factory (length rfx)) (rss_factory (length rfy)) (0 + n) (ims ! n) g1 = Inr g2"
      by blast
    then show ?thesis by (rule scan_position_steps)
  qed
  then show ?thesis by blast
qed

lemma finish_run_square:
  "finish_run g lx ly px fd dx dy energy padding w invert scale = Inl SquarePixelError \<Longrightarrow>
   scale \<and> fst px \<noteq> snd px"
  using finish_run_error [of g lx ly px fd dx dy energy padding w invert scale SquarePixelError]
    recon_error [of _ _ dx dy padding w SquarePixelError]
  by auto

lemma finish_run_not_square:
  "scale \<Longrightarrow> fst px \<noteq> snd px \<Longrightarrow>
   finish_run g lx ly px fd dx dy energy padding w invert scale = Inl SquarePixelError"
  by (simp add: finish_run_def)

subsection \<open>Runs on concrete data\<close>

lemmas runner_eval =
  dpc_runner_def scan_all_def scan_position_def dpc_fit_def start_point_optimizer_def
  unravel_index_def finish_run_def py_div_def

lemma scan_all_unit:
  "scan_all start_point_optimizer \<lparr>rows_of = [[1]], ncols = 1\<rparr> [\<lparr>rows_of = [[1]], ncols = 1\<rparr>]
     (1, 0) 1 1 ''Nelder-Mead'' None None
   = (Inr (\<lparr>g_ax = \<lparr>rows_of = [[1]], ncols = 1\<rparr>, g_ay = \<lparr>rows_of = [[1]], ncols = 1\<rparr>,
            g_gx = \<lparr>rows_of = [[0]], ncols = 1\<rparr>, g_gy = \<lparr>rows_of = [[0]], ncols = 1\<rparr>\<rparr>, 1, 1), [])"
  by (simp add: runner_eval image_eval transform_eval array_eval)

subsection \<open>A sequence longer than the scan grid\<close>

text \<open>
  C1, as stated, lets \<open>dpc_runner\<close> stop after \<open>rows * cols\<close> elements of a longer
  sequence and complete normally. On a \<open>1 \<times> 1\<close> scan with a sequence of two images
  it pulls both and raises the \<open>ValueError\<close> of \<open>np.unravel_index\<close> on the second.
\<close>

theorem sequence_overrun_counterexample:
  "1 * 1 < length [\<lparr>rows_of = [[1::real]], ncols = 1\<rparr>, \<lparr>rows_of = [[1]], ncols = 1\<rparr>] \<and>
   dpc_runner start_point_optimizer \<lparr>rows_of = [[1]], ncols = 1\<rparr>
       [\<lparr>rows_of = [[1]], ncols = 1\<rparr>, \<lparr>rows_of = [[1]], ncols = 1\<rparr>]
       (1, 0) (1, 1) 1 1 1 1 1 1 0 (1 / 2) ''Nelder-Mead'' None None True False
     = (Inl UnravelError, [])"
  by (simp add: runner_eval image_eval transform_eval array_eval)

text \<open>
  C1, amended: for every image sequence whose length exceeds \<open>rows * cols\<close>,
  \<open>dpc_runner\<close> does not complete normally, because its loop takes every element
  the sequence gives, without a bound. It never pulls more than \<open>rows * cols + 1\<close>
  elements. When \<open>w\<close> is in range and the reference and the first \<open>rows * cols\<close>
  elements are reduced and fitted without error, it pulls exactly
  \<open>rows * cols + 1\<close> elements and raises the \<open>ValueError\<close> of
  \<open>np.unravel_index\<close> for the last of them.
\<close>

theorem dpc_runner_long_sequence:
  assumes "rows * cols < length image_sequence"
  shows "(\<exists>e. fst (dpc_runner minimize ref image_sequence start_point pixel_size focus_to_det
                   rows cols dx dy energy padding w solver roi bad_pixels invert scale) = Inl e) \<and>
         length (snd (dpc_runner minimize ref image_sequence start_point pixel_size focus_to_det
                   rows cols dx dy energy padding w solver roi bad_pixels invert scale))
           \<le> length image_sequence \<and>
         length image_sequence
           - length (snd (dpc_runner minimize ref image_sequence start_point pixel_size focus_to_det
                   rows cols dx dy energy padding w solver roi bad_pixels invert scale))
           \<le> rows * cols + 1 \<and>
         (\<not> (w < 0 \<or> 1 < w) \<longrightarrow>
          (\<exists>r. scan_all minimize ref (take (rows * cols) image_sequence) start_point rows cols
                 solver roi bad_pixels = (Inr r, [])) \<longrightarrow>
          dpc_runner minimize ref image_sequence start_point pixel_size focus_to_det
            rows cols dx dy energy padding w solver roi bad_pixels invert scale
            = (Inl UnravelError, drop (rows * cols + 1) image_sequence))"
proof -
  let ?run = "dpc_runner minimize ref image_sequence start_point pixel_size focus_to_det
                rows cols dx dy energy padding w solver roi bad_pixels invert scale"
  let ?scan = "scan_all minimize ref image_sequence start_point rows cols solver roi bad_pixels"
  obtain res rest where s: "?scan = (res, rest)" by (cases ?scan)
  have no: "\<exists>e. res = Inl e"
  proof (cases res)
    case (Inr r)
    with s scan_all_done have "length image_sequence \<le> rows * cols" by blast
    with assms show ?thesis by simp
  qed simp
  then obtain e where e: "res = Inl e" ..
  have run: "?run = (if w < 0 \<or> 1 < w then (Inl WeightRangeError, image_sequence) else (Inl e, rest))"
    using s e by (simp add: dpc_runner_def)
  from scan_all_bound [OF s]
  have b: "length rest \<le> length image_sequence"
    "length image_sequence - length rest \<le> rows * cols + 1" by simp_all
  have 1: "\<exists>e. fst ?run = Inl e" unfolding run by simp
  have 2: "length (snd ?run) \<le> length image_sequence" unfolding run using b by simp
  have 3: "length image_sequence - length (snd ?run) \<le> rows * cols + 1"
    unfolding run using b by simp
  have 4: "?run = (Inl UnravelError, drop (rows * cols + 1) image_sequence)"
    if "\<not> (w < 0 \<or> 1 < w)"
      and "\<exists>r. scan_all minimize ref (take (rows * cols) image_sequence) start_point rows cols
                 solver roi bad_pixels = (Inr r, [])"
  proof -
    from that(2) obtain r where "scan_all minimize ref (take (rows * cols) image_sequence)
        start_point rows cols solver roi bad_pixels = (Inr r, [])" ..
    from scan_all_overrun [OF this assms]
    have "?scan = (Inl UnravelError, drop (rows * cols + 1) image_sequence)" .
    with that(1) show ?thesis by (simp add: dpc_runner_def)
  qed
  from 1 2 3 4 show ?thesis by blast
qed

theorem dpc_runner_long_sequence_witness:
  "1 * 1 < length [\<lparr>rows_of = [[1::real]], ncols = 1\<rparr>, \<lparr>rows_of = [[2]], ncols = 1\<rparr>,
                   \<lparr>rows_of = [[3]], ncols = 1\<rparr>] \<and>
   dpc_runner start_point_optimizer \<lparr>rows_of = [[1]], ncols = 1\<rparr>
       [\<lparr>rows_of = [[1]], ncols = 1\<rparr>, \<lparr>rows_of = [[2]], ncols = 1\<rparr>, \<lparr>rows_of = [[3]], ncols = 1\<rparr>]
       (1, 0) (1, 1) 1 1 1 1 1 1 0 (1 / 2) ''Nelder-Mead'' None None True True
     = (Inl UnravelError, [\<lparr>rows_of = [[3]], ncols = 1\<rparr>])"
proof -
  let ?A = "\<lparr>rows_of = [[1::real]], ncols = 1\<rparr>"
  let ?seq = "[?A, \<lparr>rows_of = [[2]], ncols = 1\<rparr>, \<lparr>rows_of = [[3]], ncols = 1\<rparr>]"
  have l: "1 * 1 < length ?seq" by simp
  have w: "\<not> ((1 / 2 :: real) < 0 \<or> (1::real) < 1 / 2)" by simp
  have "scan_all start_point_optimizer ?A (take (1 * 1) ?seq) (1, 0) 1 1 ''Nelder-Mead'' None None
          = (Inr (\<lparr>g_ax = \<lparr>rows_of = [[1]], ncols = 1\<rparr>, g_ay = \<lparr>rows_of = [[1]], ncols = 1\<rparr>,
                   g_gx = \<lparr>rows_of = [[0]], ncols = 1\<rparr>, g_gy = \<lparr>rows_of = [[0]], ncols = 1\<rparr>\<rparr>, 1, 1), [])"
    using scan_all_unit by simp
  then have p: "\<exists>r. scan_all start_point_optimizer ?A (take (1 * 1) ?seq) (1, 0) 1 1
                       ''Nelder-Mead'' None None = (Inr r, [])"
    by blast
  from dpc_runner_long_sequence [OF l, of start_point_optimizer ?A "(1, 0)" "(1, 1)" 1 1 1 1 0
        "1 / 2" "''Nelder-Mead''" None None True True] w p
  have "dpc_runner start_point_optimizer ?A ?seq (1, 0) (1, 1) 1 1 1 1 1 1 0 (1 / 2)
          ''Nelder-Mead'' None None True True
        = (Inl UnravelError, drop (1 * 1 + 1) ?seq)"
    by blast
  with l show ?thesis by simp
qed

subsection \<open>The square-pixel check comes after the loop\<close>

text \<open>
  C10: when \<open>dpc_runner\<close> raises the error about detector pixels that are not
  square, \<open>scale\<close> is set, the two pixel sizes differ, the whole image sequence has
  been consumed and every element of it has been reduced, transformed and fitted on
  both axes. With \<open>scale\<close> set, pixel sizes that differ and \<open>w\<close> in range, the
  error is raised exactly when the loop has run to its end; when the loop raises, its
  error is the one that comes out, so the pixel sizes are not looked at beforehand.
\<close>

theorem square_pixel_check_after_loop:
  "(fst (dpc_runner minimize ref image_sequence start_point pixel_size focus_to_det
           rows cols dx dy energy padding w solver roi bad_pixels invert scale)
      = Inl SquarePixelError \<longrightarrow>
      scale \<and> fst pixel_size \<noteq> snd pixel_size \<and>
      snd (dpc_runner minimize ref image_sequence start_point pixel_size focus_to_det
             rows cols dx dy energy padding w solver roi bad_pixels invert scale) = [] \<and>
      (\<exists>g len_fx len_fy.
         scan_all minimize ref image_sequence start_point rows cols solver roi bad_pixels
           = (Inr (g, len_fx, len_fy), [])) \<and>
      (\<exists>ref_fx ref_fy. \<forall>n<length image_sequence. \<exists>imx imy fx fy a b.
         image_reduction (image_sequence ! n) roi bad_pixels = Inr (imx, imy) \<and>
         shifted_ifft imx = Inr fx \<and> shifted_ifft imy = Inr fy \<and>
         dpc_fit minimize (rss_factory (length ref_fx)) ref_fx fx start_point solver
           (1 / 1000000) 2000 = Inr a \<and>
         dpc_fit minimize (rss_factory (length ref_fy)) ref_fy fy start_point solver
           (1 / 1000000) 2000 = Inr b)) \<and>
   (scale \<and> fst pixel_size \<noteq> snd pixel_size \<and> \<not> (w < 0 \<or> 1 < w) \<longrightarrow>
      (\<forall>r rest.
         scan_all minimize ref image_sequence start_point rows cols solver roi bad_pixels
           = (Inr r, rest) \<longrightarrow>
         dpc_runner minimize ref image_sequence start_point pixel_size focus_to_det
           rows cols dx dy energy padding w solver roi bad_pixels invert scale
           = (Inl SquarePixelError, [])) \<and>
      (\<forall>e rest.
         scan_all minimize ref image_sequence start_point rows cols solver roi bad_pixels
           = (Inl e, rest) \<longrightarrow>
         dpc_runner minimize ref image_sequence start_point pixel_size focus_to_det
           rows cols dx dy energy padding w solver roi bad_pixels invert scale
           = (Inl e, rest) \<and> e \<noteq> SquarePixelError))"
proof (intro conjI impI allI)
  let ?run = "dpc_runner minimize ref image_sequence start_point pixel_size focus_to_det
                rows cols dx dy energy padding w solver roi bad_pixels invert scale"
  let ?scan = "scan_all minimize ref image_sequence start_point rows cols solver roi bad_pixels"
  {
    assume sq: "fst ?run = Inl SquarePixelError"
    then have w: "\<not> (w < 0 \<or> 1 < w)" by (auto simp: dpc_runner_def)
    obtain res rest where s: "?scan = (res, rest)" by (cases ?scan)
    have "\<exists>r. res = Inr r"
    proof (cases res)
      case (Inl e)
      with s scan_all_error have "e \<noteq> SquarePixelError" by blast
      with sq w s Inl show ?thesis by (simp add: dpc_runner_def)
    next
      case (Inr r)
      then show ?thesis by blast
    qed
    then obtain r where r: "res = Inr r" ..
    obtain g lx ly where t: "r = (g, lx, ly)" by (cases r)
    from scan_all_done s r have rest: "rest = []" by blast
    with s r t have sc: "?scan = (Inr (g, lx, ly), [])" by simp
    with w have run: "?run = (finish_run g lx ly pixel_size focus_to_det dx dy energy padding w
        invert scale, [])"
      by (simp add: dpc_runner_def)
    with sq have "finish_run g lx ly pixel_size focus_to_det dx dy energy padding w
        invert scale = Inl SquarePixelError" by simp
    from finish_run_square [OF this]
    show "scale" and "fst pixel_size \<noteq> snd pixel_size" by simp_all
    from run show "snd ?run = []" by simp
    from sc show "\<exists>g len_fx len_fy. ?scan = (Inr (g, len_fx, len_fy), [])" by blast
    from scan_all_each [OF sc]
    show "\<exists>ref_fx ref_fy. \<forall>n<length image_sequence. \<exists>imx imy fx fy a b.
         image_reduction (image_sequence ! n) roi bad_pixels = Inr (imx, imy) \<and>
         shifted_ifft imx = Inr fx \<and> shifted_ifft imy = Inr fy \<and>
         dpc_fit minimize (rss_factory (length ref_fx)) ref_fx fx start_point solver
           (1 / 1000000) 2000 = Inr a \<and>
         dpc_fit minimize (rss_factory (length ref_fy)) ref_fy fy start_point solver
           (1 / 1000000) 2000 = Inr b" .
  }
  {
    fix r rest
    assume c: "scale \<and> fst pixel_size \<noteq> snd pixel_size \<and> \<not> (w < 0 \<or> 1 < w)"
      and s: "?scan = (Inr r, rest)"
    obtain g lx ly where t: "r = (g, lx, ly)" by (cases r)
    from scan_all_done [OF s] have "rest = []" by simp
    with c s t show "?run = (Inl SquarePixelError, [])"
      by (simp add: dpc_runner_def finish_run_not_square)
  }
  {
    fix e rest
    assume c: "scale \<and> fst pixel_size \<noteq> snd pixel_size \<and> \<not> (w < 0 \<or> 1 < w)"
      and s: "?scan = (Inl e, rest)"
    then show "?run = (Inl e, rest)" by (simp add: dpc_runner_def)
    from scan_all_error [OF s] show "e \<noteq> SquarePixelError" by auto
  }
qed

theorem square_pixel_check_after_loop_witness:
  "dpc_runner start_point_optimizer \<lparr>rows_of = [[1]], ncols = 1\<rparr> [\<lparr>rows_of = [[1]], ncols = 1\<rparr>]
       (1, 0) (1, 2) 1 1 1 1 1 1 0 (1 / 2) ''Nelder-Mead'' None None True True
     = (Inl SquarePixelError, []) \<and>
   (\<exists>g len_fx len_fy.
      scan_all start_point_optimizer \<lparr>rows_of = [[1]], ncols = 1\<rparr> [\<lparr>rows_of = [[1]], ncols = 1\<rparr>]
        (1, 0) 1 1 ''Nelder-Mead'' None None = (Inr (g, len_fx, len_fy), [])) \<and>
   (\<exists>proj. image_reduction ([\<lparr>rows_of = [[1::real]], ncols = 1\<rparr>] ! 0) None None = Inr proj)"
proof -
  let ?A = "\<lparr>rows_of = [[1::real]], ncols = 1\<rparr>"
  let ?run = "dpc_runner start_point_optimizer ?A [?A] (1, 0) (1, 2) 1 1 1 1 1 1 0 (1 / 2)
                ''Nelder-Mead'' None None True True"
  note t = square_pixel_check_after_loop [of start_point_optimizer ?A "[?A]" "(1, 0)" "(1, 2)"
      1 1 1 1 1 1 0 "1 / 2" "''Nelder-Mead''" None None True True]
  have c: "True \<and> fst (1::real, 2::real) \<noteq> snd (1::real, 2::real) \<and>
           \<not> ((1 / 2 :: real) < 0 \<or> (1::real) < 1 / 2)" by simp
  from t c scan_all_unit have run: "?run = (Inl SquarePixelError, [])" by blast
  then have "fst ?run = Inl SquarePixelError" by simp
  with t have
    s: "\<exists>g len_fx len_fy. scan_all start_point_optimizer ?A [?A] (1, 0) 1 1 ''Nelder-Mead''
          None None = (Inr (g, len_fx, len_fy), [])"
    and e: "\<exists>ref_fx ref_fy. \<forall>n<length [?A]. \<exists>imx imy fx fy a b.
         image_reduction ([?A] ! n) None None = Inr (imx, imy) \<and>
         shifted_ifft imx = Inr fx \<and> shifted_ifft imy = Inr fy \<and>
         dpc_fit start_point_optimizer (rss_factory (length ref_fx)) ref_fx fx (1, 0)
           ''Nelder-Mead'' (1 / 1000000) 2000 = Inr a \<and>
         dpc_fit start_point_optimizer (rss_factory (length ref_fy)) ref_fy fy (1, 0)
           ''Nelder-Mead'' (1 / 1000000) 2000 = Inr b"
    by blast+
  from e have "\<exists>proj. image_reduction ([?A] ! 0) None None = Inr proj"
    by (auto dest!: spec [where x = 0])
  with run s show ?thesis by blast
qed

end
